theory Spec2Isabelle
  imports Main "HOL-Library.Word"
begin

unbundle bit_operations_syntax

section \<open>The glTF binary exporter of rvmparser (src/ExportGLTF.cpp)\<close>

text \<open>
  A shallow embedding of \<^verbatim>\<open>ExportGLTF.cpp\<close>: the payload staging list
  (\<^verbatim>\<open>addDataItem\<close>), the scene graph walker (\<^verbatim>\<open>processGroup\<close>,
  \<^verbatim>\<open>processModel\<close>, \<^verbatim>\<open>processFile\<close>) and the container writer
  (\<^verbatim>\<open>exportGLTF\<close>).

  Conventions of the embedding:
  \<^item> \<^verbatim>\<open>uint32_t\<close> is \<open>32 word\<close>, \<^verbatim>\<open>size_t\<close> is \<open>64 word\<close> (an LP64 target),
    a byte is \<open>8 word\<close>; \<^verbatim>\<open>uint32_t\<close> arrays reach the file in little-endian order;
  \<^item> a failing \<^verbatim>\<open>assert\<close> is the error value \<open>AssertionFailed\<close> (the process aborts);
  \<^item> an intrusive singly linked list (\<^verbatim>\<open>first\<close>, \<^verbatim>\<open>next\<close>) is a HOL list in
    link order;
  \<^item> the arena only provides storage; allocation is taken to succeed.
\<close>

subsection \<open>Bytes and machine integers\<close>

type_synonym byte = "8 word"
type_synonym u32 = "32 word"
type_synonym size_t = "64 word"

datatype error = AssertionFailed

definition bytes_of :: "string \<Rightarrow> byte list" where
  "bytes_of s = map of_char s"

text \<open>The four bytes of a \<^verbatim>\<open>uint32_t\<close> as \<^verbatim>\<open>fwrite\<close> stores them on a little-endian machine.\<close>

definition le32 :: "u32 \<Rightarrow> byte list" where
  "le32 w = [ucast w, ucast (drop_bit 8 w), ucast (drop_bit 16 w), ucast (drop_bit 24 w)]"

text \<open>\<^verbatim>\<open>std::numeric_limits<uint32_t>::max()\<close>, converted to \<^verbatim>\<open>size_t\<close> for the comparison.\<close>

definition uint32_max :: size_t where
  "uint32_max = 0xFFFFFFFF"

subsection \<open>JSON values (rapidjson)\<close>

text \<open>
  The part of \<^verbatim>\<open>rapidjson::Value\<close> the exporter uses. rapidjson is a library outside the
  repository; its values and its writer are modelled as the library implements them.
  An object keeps its members in an array in insertion order, so it is an association
  list; an array is a list.
\<close>

datatype json =
    JObject "(string \<times> json) list"
  | JArray "json list"
  | JString string
  | JInt int
  | JUint u32

text \<open>
  \<^verbatim>\<open>Value::AddMember(name, value, allocator)\<close>: the library stores the new member behind
  the existing ones (in amortised constant time) and does not look for a member of the
  same name. Its precondition
  is \<^verbatim>\<open>IsObject()\<close>; every call of the exporter is on a value built with
  \<^verbatim>\<open>kObjectType\<close>, and a value of another kind is left as it is.
\<close>

fun AddMember :: "string \<Rightarrow> json \<Rightarrow> json \<Rightarrow> json" where
  "AddMember name v (JObject ms) = JObject (ms @ [(name, v)])"
| "AddMember name v j = j"

text \<open>\<^verbatim>\<open>Value::PushBack(value, allocator)\<close> on an array.\<close>

fun PushBack :: "json \<Rightarrow> json \<Rightarrow> json" where
  "PushBack v (JArray xs) = JArray (xs @ [v])"
| "PushBack v j = j"

subsection \<open>The export context and the payload staging list\<close>

text \<open>
  A \<^verbatim>\<open>DataItem\<close> holds a pointer and a size. The pointer is modelled by the bytes it
  designates: for \<^verbatim>\<open>copy = true\<close> these are the \<^verbatim>\<open>size\<close> bytes \<^verbatim>\<open>memcpy\<close> placed in
  the arena, otherwise the caller's buffer, which nothing in this file writes to
  between registration and output.
\<close>

record DataItem =
  ptr :: "byte list"
  item_size :: u32

record Context =
  doc :: json
  rjNodes :: "json list"
  dataBytes :: u32
  dataItems :: "DataItem list"
  includeAttributes :: bool

text \<open>
  The member initialisers of \<^verbatim>\<open>struct Context\<close>, with \<^verbatim>\<open>doc\<close> after \<^verbatim>\<open>SetObject()\<close>.
  \<^verbatim>\<open>rjNodes\<close> holds the elements of the array value, so \<^verbatim>\<open>rjNodes.Size()\<close> is the
  length of the list as an unsigned 32-bit \<^verbatim>\<open>SizeType\<close>.
\<close>

definition newContext :: Context where
  "newContext = \<lparr> doc = JObject [], rjNodes = [], dataBytes = 0, dataItems = [],
     includeAttributes = True \<rparr>"

text \<open>
  Modelled from the spec: \<^verbatim>\<open>ListHeader<T>::insert\<close> is declared in \<^verbatim>\<open>Store.h\<close>, which is
  not among the sources; the spec has it append the descriptor to the end of the
  singly linked sequence.
\<close>

definition insert_item :: "'a \<Rightarrow> 'a list \<Rightarrow> 'a list" where
  "insert_item item xs = xs @ [item]"

text \<open>
  \<^verbatim>\<open>addDataItem\<close> (lines 38-57). The sum in the assertion is computed in \<^verbatim>\<open>size_t\<close>:
  \<^verbatim>\<open>dataBytes\<close> is converted, the addition wraps at \<open>2^64\<close>.
\<close>

definition addDataItem :: "Context \<Rightarrow> byte list \<Rightarrow> size_t \<Rightarrow> bool \<Rightarrow> error + (u32 \<times> Context)" where
  "addDataItem ctx p sz copy =
     (if \<not> (ucast (dataBytes ctx) + sz \<le> uint32_max) then Inl AssertionFailed
      else
        let p' = (if copy then take (unat sz) p else p);
            item = \<lparr> ptr = p', item_size = ucast sz \<rparr>;
            ctx1 = ctx \<lparr> dataItems := insert_item item (dataItems ctx) \<rparr>;
            offset = dataBytes ctx1;
            ctx2 = ctx1 \<lparr> dataBytes := dataBytes ctx1 + item_size item \<rparr>
        in Inr (offset, ctx2))"

subsection \<open>The scene graph\<close>

text \<open>
  Modelled from the spec: \<^verbatim>\<open>struct Group\<close> and \<^verbatim>\<open>struct Attribute\<close> are declared in
  \<^verbatim>\<open>Store.h\<close>, which is not among the sources. A Group has a kind (File, Model or
  Group), an optional name, attributes and child Groups, both in the order the source
  exposes them; the fields are the ones this file reads: \<^verbatim>\<open>kind\<close>,
  \<^verbatim>\<open>group.name\<close> (a nullable C string), \<^verbatim>\<open>attributes\<close> (a list of key and value
  strings) and \<^verbatim>\<open>groups\<close> (the child list). The store is the list of its roots,
  \<^verbatim>\<open>getFirstRoot()\<close> and the \<^verbatim>\<open>next\<close> links.
\<close>

datatype Kind = File | Model | Group

datatype group =
  MkGroup (kind: Kind) (name: "string option") (attributes: "(string \<times> string) list")
    (groups: "group list")

type_synonym Store = "group list"

definition getFirstRoot :: "Store \<Rightarrow> group list" where
  "getFirstRoot store = store"

subsection \<open>The scene graph walker\<close>

text \<open>The loop of lines 72-74: one \<^verbatim>\<open>AddMember\<close> per attribute, in link order.\<close>

fun addAttributes :: "(string \<times> string) list \<Rightarrow> json \<Rightarrow> json" where
  "addAttributes [] extras = extras"
| "addAttributes ((key, val) # atts) extras =
     addAttributes atts (AddMember key (JString val) extras)"

text \<open>
  \<^verbatim>\<open>processGroup\<close> (lines 59-90); \<open>processChildren\<close> is its loop over the child list
  (lines 80-82), which pushes each returned index onto the \<^verbatim>\<open>children\<close> array.
\<close>

fun processGroup :: "Context \<Rightarrow> group \<Rightarrow> error + (u32 \<times> Context)"
  and processChildren :: "Context \<Rightarrow> json \<Rightarrow> group list \<Rightarrow> error + (json \<times> Context)"
where
  "processGroup ctx (MkGroup k nm atts gs) =
     (if k \<noteq> Group then Inl AssertionFailed
      else
        let node0 = JObject [];
            node1 = (case nm of Some n \<Rightarrow> AddMember ''name'' (JString n) node0 | None \<Rightarrow> node0);
            node2 = (if includeAttributes ctx \<and> atts \<noteq> []
                     then AddMember ''extras'' (addAttributes atts (JObject [])) node1
                     else node1)
        in case (if gs \<noteq> []
                 then (case processChildren ctx (JArray []) gs of
                         Inl e \<Rightarrow> Inl e
                       | Inr (children, ctx') \<Rightarrow> Inr (AddMember ''children'' children node2, ctx'))
                 else Inr (node2, ctx)) of
             Inl e \<Rightarrow> Inl e
           | Inr (node, ctx') \<Rightarrow>
               let index = (of_nat (length (rjNodes ctx')) :: u32)
               in Inr (index, ctx' \<lparr> rjNodes := rjNodes ctx' @ [node] \<rparr>))"
| "processChildren ctx children [] = Inr (children, ctx)"
| "processChildren ctx children (child # rest) =
     (case processGroup ctx child of
        Inl e \<Rightarrow> Inl e
      | Inr (i, ctx') \<Rightarrow> processChildren ctx' (PushBack (JUint i) children) rest)"

text \<open>\<^verbatim>\<open>processModel\<close> (lines 92-99) and its loop.\<close>

fun processModelGroups :: "Context \<Rightarrow> u32 list \<Rightarrow> group list \<Rightarrow> error + (u32 list \<times> Context)" where
  "processModelGroups ctx siblings [] = Inr (siblings, ctx)"
| "processModelGroups ctx siblings (g # rest) =
     (case processGroup ctx g of
        Inl e \<Rightarrow> Inl e
      | Inr (i, ctx') \<Rightarrow> processModelGroups ctx' (siblings @ [i]) rest)"

definition processModel :: "Context \<Rightarrow> u32 list \<Rightarrow> group \<Rightarrow> error + (u32 list \<times> Context)" where
  "processModel ctx siblings model =
     (if kind model \<noteq> Model then Inl AssertionFailed
      else processModelGroups ctx siblings (groups model))"

text \<open>\<^verbatim>\<open>processFile\<close> (lines 101-108) and its loop.\<close>

fun processFileModels :: "Context \<Rightarrow> u32 list \<Rightarrow> group list \<Rightarrow> error + (u32 list \<times> Context)" where
  "processFileModels ctx siblings [] = Inr (siblings, ctx)"
| "processFileModels ctx siblings (m # rest) =
     (case processModel ctx siblings m of
        Inl e \<Rightarrow> Inl e
      | Inr (siblings', ctx') \<Rightarrow> processFileModels ctx' siblings' rest)"

definition processFile :: "Context \<Rightarrow> u32 list \<Rightarrow> group \<Rightarrow> error + (u32 list \<times> Context)" where
  "processFile ctx siblings file =
     (if kind file \<noteq> File then Inl AssertionFailed
      else processFileModels ctx siblings (groups file))"

text \<open>The loop over the roots in \<^verbatim>\<open>exportGLTF\<close> (lines 149-152), assertion included.\<close>

fun processRoots :: "Context \<Rightarrow> u32 list \<Rightarrow> group list \<Rightarrow> error + (u32 list \<times> Context)" where
  "processRoots ctx rootNodes [] = Inr (rootNodes, ctx)"
| "processRoots ctx rootNodes (file # rest) =
     (if kind file \<noteq> File then Inl AssertionFailed
      else (case processFile ctx rootNodes file of
              Inl e \<Rightarrow> Inl e
            | Inr (rootNodes', ctx') \<Rightarrow> processRoots ctx' rootNodes' rest))"

subsection \<open>Serialising the document (rapidjson Writer)\<close>

text \<open>
  \<^verbatim>\<open>Writer<StringBuffer>\<close> produces the compact text: no white space, the members and
  elements in stored order, every member written (also when a name repeats). In a
  string the quotation mark, the backslash and the control characters below
  \<^verbatim>\<open>0x20\<close> are escaped; every other byte is copied.
\<close>

definition digit_char :: "nat \<Rightarrow> char" where
  "digit_char n = ''0123456789'' ! n"

function decimal :: "nat \<Rightarrow> string" where
  "decimal n = (if n < 10 then [digit_char n] else decimal (n div 10) @ [digit_char (n mod 10)])"
  by pat_completeness auto
termination
  by (relation "measure id") auto

declare decimal.simps [simp del]

definition hexDigits :: string where
  "hexDigits = ''0123456789ABCDEF''"

definition escapeChar :: "char \<Rightarrow> string" where
  "escapeChar c =
     (let n = (of_char c :: nat) in
      if n = 0x22 then [CHR 0x5C, CHR 0x22]
      else if n = 0x5C then [CHR 0x5C, CHR 0x5C]
      else if n = 8 then [CHR 0x5C, CHR ''b'']
      else if n = 9 then [CHR 0x5C, CHR ''t'']
      else if n = 10 then [CHR 0x5C, CHR ''n'']
      else if n = 12 then [CHR 0x5C, CHR ''f'']
      else if n = 13 then [CHR 0x5C, CHR ''r'']
      else if n < 0x20
        then [CHR 0x5C, CHR ''u'', CHR ''0'', CHR ''0'', hexDigits ! (n div 16), hexDigits ! (n mod 16)]
      else [c])"

definition writeString :: "string \<Rightarrow> string" where
  "writeString s = [CHR 0x22] @ concat (map escapeChar s) @ [CHR 0x22]"

fun writeJson :: "json \<Rightarrow> string"
  and writeMembers :: "(string \<times> json) list \<Rightarrow> string"
  and writeElements :: "json list \<Rightarrow> string"
where
  "writeJson (JObject ms) = ''{'' @ writeMembers ms @ ''}''"
| "writeJson (JArray xs) = ''['' @ writeElements xs @ '']''"
| "writeJson (JString s) = writeString s"
| "writeJson (JInt i) = (if i < 0 then ''-'' @ decimal (nat (- i)) else decimal (nat i))"
| "writeJson (JUint u) = decimal (unat u)"
| "writeMembers [] = []"
| "writeMembers ((k, v) # ms) =
     writeString k @ '':'' @ writeJson v @ (if ms = [] then [] else '','' @ writeMembers ms)"
| "writeElements [] = []"
| "writeElements (x # xs) =
     writeJson x @ (if xs = [] then [] else '','' @ writeElements xs)"

subsection \<open>The output stream and the logger\<close>

text \<open>
  The world outside the exporter: whether the destination can be opened
  (\<open>open_error\<close> is the text \<^verbatim>\<open>strerror_s\<close> gives on Windows when it cannot), how each
  coming \<^verbatim>\<open>fwrite\<close> ends (\<open>future\<close>; when it is used up, writes succeed), the bytes that
  have reached the file, the state of the handle and the calls the logger has received
  (severity, format string, arguments).
\<close>

datatype platform = Posix | Win32

datatype handle_state = NotOpened | Opened | Closed

datatype outcome = Complete | Short nat

datatype fmt_arg = ArgStr string | ArgUInt u32

record io =
  open_error :: "string option"
  future :: "outcome list"
  disk :: "byte list"
  handle :: handle_state
  logged :: "(nat \<times> string \<times> fmt_arg list) list"

definition logger :: "nat \<Rightarrow> string \<Rightarrow> fmt_arg list \<Rightarrow> io \<Rightarrow> io" where
  "logger level fmt args s = s \<lparr> logged := logged s @ [(level, fmt, args)] \<rparr>"

definition fclose :: "io \<Rightarrow> io" where
  "fclose s = s \<lparr> handle := Closed \<rparr>"

text \<open>
  \<^verbatim>\<open>fwrite(p, size, 1, out) == 1\<close>: the flag is whether the one item was written.
  The C library returns 0 for an item of size 0 and leaves the stream alone. A short
  write leaves a proper prefix of the item in the file.
\<close>

definition fwrite :: "byte list \<Rightarrow> io \<Rightarrow> bool \<times> io" where
  "fwrite bs s =
     (if bs = [] then (False, s)
      else case future s of
             [] \<Rightarrow> (True, s \<lparr> disk := disk s @ bs \<rparr>)
           | Complete # r \<Rightarrow> (True, s \<lparr> future := r, disk := disk s @ bs \<rparr>)
           | Short n # r \<Rightarrow>
               (False, s \<lparr> future := r, disk := disk s @ take (min n (length bs - 1)) bs \<rparr>))"

subsection \<open>The container writer\<close>

text \<open>
  The loop of lines 241-250 over the staged descriptors. It returns whether every
  item was written, the \<^verbatim>\<open>offset\<close> reached and the stream.
\<close>

fun writeDataItems :: "string \<Rightarrow> u32 \<Rightarrow> DataItem list \<Rightarrow> io \<Rightarrow> bool \<times> u32 \<times> io" where
  "writeDataItems path offset [] s = (True, offset, s)"
| "writeDataItems path offset (item # rest) s =
     (let (ok, s1) = fwrite (take (unat (item_size item)) (ptr item)) s in
      if \<not> ok
      then (False, offset,
            fclose (logger 2 ''%s: Error writing BIN chunk data at offset %u''
                      [ArgStr path, ArgUInt offset] s1))
      else writeDataItems path (offset + item_size item) rest s1)"

text \<open>
  Lines 137-180 of \<^verbatim>\<open>exportGLTF\<close>: the walk over the roots, the scene, the members of
  the document and the two placeholder payloads. A string literal is its characters
  and the terminating zero byte.
\<close>

definition buildDocument :: "Store \<Rightarrow> error + Context" where
  "buildDocument store =
     (let ctx = newContext;
          rjAsset = JObject [];
          rjMeshes = JArray [];
          rjAccessors = JArray [];
          rjbufferViews = JArray [];
          rjbuffers = JArray []
      in case processRoots ctx [] (getFirstRoot store) of
           Inl e \<Rightarrow> Inl e
         | Inr (rootNodes, ctx1) \<Rightarrow>
             let rjSceneInstanceNodes = foldl (\<lambda>a index. PushBack (JUint index) a) (JArray []) rootNodes;
                 rjSceneInstance = AddMember ''nodes'' rjSceneInstanceNodes (JObject []);
                 rjScenes = PushBack rjSceneInstance (JArray []);
                 d1 = AddMember ''asset'' rjAsset (doc ctx1);
                 d2 = AddMember ''scene'' (JInt 0) d1;
                 d3 = AddMember ''scenes'' rjScenes d2;
                 d4 = AddMember ''nodes'' (JArray (rjNodes ctx1)) d3;
                 d5 = AddMember ''meshes'' rjMeshes d4;
                 d6 = AddMember ''accessors'' rjAccessors d5;
                 d7 = AddMember ''bufferViews'' rjbufferViews d6;
                 d8 = AddMember ''buffers'' rjbuffers d7;
                 ctx2 = ctx1 \<lparr> doc := d8 \<rparr>
             in (case addDataItem ctx2 (bytes_of ''test0'' @ [0]) 5 False of
                   Inl e \<Rightarrow> Inl e
                 | Inr (off0, ctx3) \<Rightarrow>
                     (case addDataItem ctx3 (bytes_of ''test1'' @ [0]) 5 True of
                        Inl e \<Rightarrow> Inl e
                      | Inr (off1, ctx4) \<Rightarrow> Inr ctx4)))"

text \<open>
  Lines 182-255: the header, the JSON chunk and the BIN chunk. The dump of the
  pretty-printed document to \<^verbatim>\<open>stdout\<close> (lines 216-226) touches neither the context nor
  the output stream and is left out. The last assertion is written with \<^verbatim>\<open>=\<close>: it
  assigns \<^verbatim>\<open>dataBytes\<close> to \<^verbatim>\<open>offset\<close> and fails when that value is zero.
\<close>

definition writeContainer :: "Context \<Rightarrow> string \<Rightarrow> io \<Rightarrow> error + (bool \<times> io)" where
  "writeContainer ctx path s0 =
     (let header = le32 0x46546C67 @ le32 2 @ le32 (12 + 8 + 8);
          (ok1, s1) = fwrite header s0
      in if \<not> ok1
         then Inr (False, fclose (logger 2 ''%s: Error writing header'' [ArgStr path] s1))
         else
           let buffer = bytes_of (writeJson (doc ctx));
               json_chunk_header = le32 (of_nat (length buffer)) @ le32 0x4E4F534A;
               (ok2, s2) = fwrite json_chunk_header s1
           in if \<not> ok2
              then Inr (False, fclose (logger 2 ''%s: Error writing JSON chunk header'' [ArgStr path] s2))
              else
                let (ok3, s3) = fwrite buffer s2
                in if \<not> ok3
                   then Inr (False, fclose (logger 2 ''%s: Error writing JSON data'' [ArgStr path] s3))
                   else
                     let bin_chunk_header = le32 (dataBytes ctx) @ le32 0x004E4942;
                         (ok4, s4) = fwrite bin_chunk_header s3
                     in if \<not> ok4
                        then Inr (False, fclose (logger 2 ''%s: Error writing BIN chunk header'' [ArgStr path] s4))
                        else
                          let (ok5, offset, s5) = writeDataItems path 0 (dataItems ctx) s4
                          in if \<not> ok5 then Inr (False, s5)
                             else if dataBytes ctx = 0 then Inl AssertionFailed
                             else Inr (True, fclose s5))"

text \<open>
  \<^verbatim>\<open>exportGLTF\<close> (lines 114-256). Opening with mode \<^verbatim>\<open>w\<close> empties the file. The two
  branches of the \<^verbatim>\<open>#ifdef\<close> differ in the message of the open failure only.
\<close>

definition exportGLTF :: "platform \<Rightarrow> Store \<Rightarrow> string \<Rightarrow> io \<Rightarrow> error + (bool \<times> io)" where
  "exportGLTF pf store path s =
     (case open_error s of
        Some buf \<Rightarrow>
          (case pf of
             Win32 \<Rightarrow> Inr (False, logger 2 ''Failed to open %s for writing: %s'' [ArgStr path, ArgStr buf] s)
           | Posix \<Rightarrow> Inr (False, logger 2 ''Failed to open %s for writing.'' [ArgStr path] s))
      | None \<Rightarrow>
          let out = s \<lparr> disk := [], handle := Opened \<rparr>
          in (case buildDocument store of
                Inl e \<Rightarrow> Inl e
              | Inr ctx \<Rightarrow> writeContainer ctx path out))"

section \<open>Reference notions for the properties\<close>

text \<open>
  What the properties are stated with: the well-formed forests (File, Model, Group
  levels), the number of nodes of a subtree, the nodes and indices a walk yields,
  written as plain recursion over the forest, and a reader's view of a node.
\<close>

text \<open>The number of nodes of a subtree, its root included, and of the nodes below the root.\<close>

fun gsize :: "group \<Rightarrow> nat" where
  "gsize (MkGroup k nm atts gs) = Suc (sum_list (map gsize gs))"

definition descendants :: "group \<Rightarrow> nat" where
  "descendants g = sum_list (map gsize (groups g))"

text \<open>
  The forests the exporter accepts, that is, on which none of its kind assertions
  fails: every root is a File, its children are Models, theirs are Groups, and below
  a Group there are only Groups.
\<close>

fun wfGroup :: "group \<Rightarrow> bool" where
  "wfGroup (MkGroup k nm atts gs) = (k = Group \<and> list_all wfGroup gs)"

definition wfModel :: "group \<Rightarrow> bool" where
  "wfModel m = (kind m = Model \<and> list_all wfGroup (groups m))"

definition wfFile :: "group \<Rightarrow> bool" where
  "wfFile f = (kind f = File \<and> list_all wfModel (groups f))"

definition wfStore :: "Store \<Rightarrow> bool" where
  "wfStore store = list_all wfFile store"

text \<open>
  The direct Group children of every Model of every File, in File order, then Model
  order, then Group order.
\<close>

definition rootGroups :: "Store \<Rightarrow> group list" where
  "rootGroups store = concat (map groups (concat (map groups store)))"

text \<open>
  The walk as plain recursion. When the node array holds \<open>n\<close> nodes and the Groups
  \<open>gs\<close> are processed one after the other, \<open>indices n gs\<close> are the indices of their
  nodes (a Group's node follows the nodes of its descendants) and \<open>postorders inc n gs\<close>
  are the nodes appended; \<open>nodeOf inc n g\<close> is the object built for \<open>g\<close> when its first
  descendant gets index \<open>n\<close>, \<open>inc\<close> being the \<^verbatim>\<open>includeAttributes\<close> flag.
\<close>

fun indices :: "nat \<Rightarrow> group list \<Rightarrow> nat list" where
  "indices n [] = []"
| "indices n (g # gs) = (n + descendants g) # indices (n + gsize g) gs"

definition extrasOf :: "(string \<times> string) list \<Rightarrow> json" where
  "extrasOf atts = JObject (map (\<lambda>(key, val). (key, JString val)) atts)"

definition nodeOf :: "bool \<Rightarrow> nat \<Rightarrow> group \<Rightarrow> json" where
  "nodeOf inc n g =
     JObject ((case name g of Some s \<Rightarrow> [(''name'', JString s)] | None \<Rightarrow> []) @
              (if inc \<and> attributes g \<noteq> [] then [(''extras'', extrasOf (attributes g))] else []) @
              (if groups g \<noteq> []
               then [(''children'', JArray (map (\<lambda>i. JUint (of_nat i)) (indices n (groups g))))]
               else []))"

fun postorder :: "bool \<Rightarrow> nat \<Rightarrow> group \<Rightarrow> json list"
  and postorders :: "bool \<Rightarrow> nat \<Rightarrow> group list \<Rightarrow> json list"
where
  "postorder inc n (MkGroup k nm atts gs) =
     postorders inc n gs @ [nodeOf inc n (MkGroup k nm atts gs)]"
| "postorders inc n [] = []"
| "postorders inc n (g # gs) = postorder inc n g @ postorders inc (n + gsize g) gs"

text \<open>
  A reader's view of a node: the first member of a name (as \<^verbatim>\<open>Value::FindMember\<close>
  finds it) and the indices in its \<^verbatim>\<open>children\<close> array.
\<close>

fun FindMember :: "string \<Rightarrow> json \<Rightarrow> json option" where
  "FindMember key (JObject ms) = map_of ms key"
| "FindMember key j = None"

fun uintOf :: "json \<Rightarrow> u32 option" where
  "uintOf (JUint u) = Some u"
| "uintOf j = None"

definition childrenOf :: "json \<Rightarrow> u32 list" where
  "childrenOf node =
     (case FindMember ''children'' node of
        Some (JArray xs) \<Rightarrow> List.map_filter uintOf xs
      | _ \<Rightarrow> [])"

text \<open>
  \<open>represents inc nodes i g\<close>: the array has a node at index \<open>i\<close>, it carries the name and
  the attributes of the Group \<open>g\<close>, and its \<^verbatim>\<open>children\<close> array lists, in order, indices of
  nodes that represent the children of \<open>g\<close> in the same way.
\<close>

fun represents :: "bool \<Rightarrow> json list \<Rightarrow> nat \<Rightarrow> group \<Rightarrow> bool"
  and representsAll :: "bool \<Rightarrow> json list \<Rightarrow> nat list \<Rightarrow> group list \<Rightarrow> bool"
where
  "represents inc nodes i (MkGroup k nm atts gs) =
     (i < length nodes \<and>
      FindMember ''name'' (nodes ! i) = map_option JString nm \<and>
      FindMember ''extras'' (nodes ! i) = (if inc \<and> atts \<noteq> [] then Some (extrasOf atts) else None) \<and>
      representsAll inc nodes (map unat (childrenOf (nodes ! i))) gs)"
| "representsAll inc nodes [] [] = True"
| "representsAll inc nodes (i # is) (g # gs) =
     (represents inc nodes i g \<and> representsAll inc nodes is gs)"
| "representsAll inc nodes is gs = False"

text \<open>The document of a well-formed store, written out member by member.\<close>

definition documentOf :: "Store \<Rightarrow> json" where
  "documentOf store =
     JObject [(''asset'', JObject []), (''scene'', JInt 0),
       (''scenes'', JArray [JObject [(''nodes'',
           JArray (map (\<lambda>i. JUint (of_nat i)) (indices 0 (rootGroups store))))]]),
       (''nodes'', JArray (postorders True 0 (rootGroups store))),
       (''meshes'', JArray []), (''accessors'', JArray []),
       (''bufferViews'', JArray []), (''buffers'', JArray [])]"

text \<open>
  The number of nodes of kind Group in a tree of any kinds, and the scene of the
  spec's end-to-end scenario: one File, one Model, the sibling Groups A (attribute
  \<open>unit = mm\<close>) and B, and C below B.
\<close>

fun groupCount :: "group \<Rightarrow> nat" where
  "groupCount (MkGroup k nm atts gs) = (if k = Group then 1 else 0) + sum_list (map groupCount gs)"

definition sampleStore :: Store where
  "sampleStore =
     [MkGroup File None []
        [MkGroup Model None []
           [MkGroup Group (Some ''A'') [(''unit'', ''mm'')] [],
            MkGroup Group (Some ''B'') [] [MkGroup Group (Some ''C'') [] []]]]]"

text \<open>The bytes the staged descriptors contribute to the BIN chunk, in list order.\<close>

definition payload :: "DataItem list \<Rightarrow> byte list" where
  "payload items = concat (map (\<lambda>item. take (unat (item_size item)) (ptr item)) items)"

text \<open>
  Everything a complete file holds before the BIN chunk body: the header, the JSON
  chunk and the BIN chunk header, as \<^verbatim>\<open>exportGLTF\<close> writes them.
\<close>

definition containerHead :: "Context \<Rightarrow> byte list" where
  "containerHead ctx =
     le32 0x46546C67 @ le32 2 @ le32 28 @
     le32 (of_nat (length (bytes_of (writeJson (doc ctx))))) @ le32 0x4E4F534A @
     bytes_of (writeJson (doc ctx)) @
     le32 (dataBytes ctx) @ le32 0x004E4942"

text \<open>Whether the next \<open>n\<close> writes of non-empty items all succeed.\<close>

fun allComplete :: "nat \<Rightarrow> outcome list \<Rightarrow> bool" where
  "allComplete 0 fs = True"
| "allComplete (Suc n) [] = True"
| "allComplete (Suc n) (Complete # r) = allComplete n r"
| "allComplete (Suc n) (Short k # r) = False"

text \<open>The world before a call: nothing written, the handle not opened, nothing logged.\<close>

definition initial_io :: "string option \<Rightarrow> outcome list \<Rightarrow> io" where
  "initial_io err outcomes =
     \<lparr> open_error = err, future = outcomes, disk = [], handle = NotOpened, logged = [] \<rparr>"

text \<open>The file a successful export leaves behind.\<close>

definition outputOf :: "error + bool \<times> io \<Rightarrow> byte list option" where
  "outputOf r = (case r of Inr (True, s) \<Rightarrow> Some (disk s) | _ \<Rightarrow> None)"

text \<open>The two descriptors \<^verbatim>\<open>exportGLTF\<close> stages (lines 179-180).\<close>

definition placeholders :: "DataItem list" where
  "placeholders = [\<lparr> ptr = bytes_of ''test0'' @ [0], item_size = 5 \<rparr>,
                   \<lparr> ptr = bytes_of ''test1'', item_size = 5 \<rparr>]"







text \<open>
  The logger call of a failed open (lines 119-133): on Windows the text of \<^verbatim>\<open>strerror_s\<close>
  is a second argument.
\<close>

definition openFailureCall :: "platform \<Rightarrow> string \<Rightarrow> string \<Rightarrow> nat \<times> string \<times> fmt_arg list" where
  "openFailureCall pf path buf =
     (case pf of
        Posix \<Rightarrow> (2, ''Failed to open %s for writing.'', [ArgStr path])
      | Win32 \<Rightarrow> (2, ''Failed to open %s for writing: %s'', [ArgStr path, ArgStr buf]))"

text \<open>
  The logger call after the failure of the \<open>i\<close>-th write of an export that stages the two
  placeholders, counting from 0: the header, the JSON chunk header, the JSON text, the
  BIN chunk header, then the payloads of 5 bytes each, where the offset is the size of
  the payloads written before (lines 188-246).
\<close>

definition writeFailureCall :: "string \<Rightarrow> nat \<Rightarrow> nat \<times> string \<times> fmt_arg list" where
  "writeFailureCall path i =
     (if i = 0 then (2, ''%s: Error writing header'', [ArgStr path])
      else if i = 1 then (2, ''%s: Error writing JSON chunk header'', [ArgStr path])
      else if i = 2 then (2, ''%s: Error writing JSON data'', [ArgStr path])
      else if i = 3 then (2, ''%s: Error writing BIN chunk header'', [ArgStr path])
      else (2, ''%s: Error writing BIN chunk data at offset %u'',
            [ArgStr path, ArgUInt (5 * of_nat (i - 4))]))"


section \<open>Properties\<close>

subsection \<open>The payload staging list\<close>

lemma ucast_u32_size_t: "unat (ucast (w :: u32) :: size_t) = unat w"
proof -
  have "unat w < 2 ^ 64"
    using unsigned_less [of w, where ?'a = nat] by simp
  then show ?thesis
    by (simp add: unsigned_ucast_eq take_bit_nat_eq_self)
qed

lemma assertion_iff:
  assumes "unat (d :: u32) + unat (sz :: size_t) < 18446744073709551616"
  shows "(ucast d + sz \<le> uint32_max) \<longleftrightarrow> unat d + unat sz \<le> 4294967295"
proof -
  have "unat (ucast d + sz) = unat d + unat sz"
    using assms by (simp add: unat_word_ariths ucast_u32_size_t)
  then show ?thesis
    by (simp add: word_le_nat_alt uint32_max_def)
qed

lemma addDataItem_ok:
  assumes "unat (dataBytes ctx) + unat sz \<le> 4294967295"
  shows "addDataItem ctx p sz copy =
           Inr (dataBytes ctx,
                ctx \<lparr> dataItems := dataItems ctx @
                        [\<lparr> ptr = (if copy then take (unat sz) p else p), item_size = ucast sz \<rparr>],
                      dataBytes := dataBytes ctx + ucast sz \<rparr>)"
proof -
  have "ucast (dataBytes ctx) + sz \<le> uint32_max"
    using assms by (subst assertion_iff) simp_all
  then show ?thesis
    by (simp add: addDataItem_def insert_item_def Let_def)
qed

lemma unat_sum_exact:
  assumes "unat (d :: u32) + unat (sz :: size_t) \<le> 4294967295"
  shows "unat (d + ucast sz) = unat d + unat sz"
proof -
  have "unat (ucast sz :: u32) = unat sz"
    using assms by (simp add: unsigned_ucast_eq take_bit_nat_eq_self)
  then show ?thesis
    using assms by (simp add: unat_word_ariths)
qed

text \<open>
  C9: the cumulative payload total fits an unsigned 32-bit count. When
  \<open>dataBytes + size\<close> does not exceed \<open>2^32 - 1\<close> the assertion of \<^verbatim>\<open>addDataItem\<close>
  holds, the call returns the old total as offset and the new total is the exact sum.
  When the sum exceeds \<open>2^32 - 1\<close> (and is a \<^verbatim>\<open>size_t\<close> value, so that the sum of the
  assertion does not wrap) the call ends in the failed assertion: a contract
  violation, not a result the caller could handle.
\<close>

theorem addDataItem_total_bounded:
  "(unat (dataBytes ctx) + unat sz \<le> 4294967295 \<longrightarrow>
      (\<exists>ctx'. addDataItem ctx p sz copy = Inr (dataBytes ctx, ctx') \<and>
              unat (dataBytes ctx') = unat (dataBytes ctx) + unat sz \<and>
              unat (dataBytes ctx') \<le> 4294967295)) \<and>
   (4294967295 < unat (dataBytes ctx) + unat sz \<and>
    unat (dataBytes ctx) + unat sz < 18446744073709551616 \<longrightarrow>
      addDataItem ctx p sz copy = Inl AssertionFailed)"
proof (intro conjI impI)
  assume ok: "unat (dataBytes ctx) + unat sz \<le> 4294967295"
  have "unat (dataBytes ctx + ucast sz) = unat (dataBytes ctx) + unat sz"
    using ok by (rule unat_sum_exact)
  then show "\<exists>ctx'. addDataItem ctx p sz copy = Inr (dataBytes ctx, ctx') \<and>
      unat (dataBytes ctx') = unat (dataBytes ctx) + unat sz \<and>
      unat (dataBytes ctx') \<le> 4294967295"
    using ok by (simp add: addDataItem_ok)
next
  assume over: "4294967295 < unat (dataBytes ctx) + unat sz \<and>
    unat (dataBytes ctx) + unat sz < 18446744073709551616"
  then have "\<not> (ucast (dataBytes ctx) + sz \<le> uint32_max)"
    by (subst assertion_iff) simp_all
  then show "addDataItem ctx p sz copy = Inl AssertionFailed"
    by (simp add: addDataItem_def)
qed

theorem addDataItem_total_bounded_witness:
  "(\<exists>ctx'. addDataItem newContext (bytes_of ''test1'' @ [0]) 5 True = Inr (0, ctx') \<and>
           unat (dataBytes ctx') = 5) \<and>
   addDataItem (newContext \<lparr> dataBytes := 0xFFFFFFFF \<rparr>) [7] 1 False = Inl AssertionFailed"
proof -
  have a: "unat (dataBytes newContext) + unat (5 :: size_t) \<le> 4294967295"
    by (simp add: newContext_def)
  have b: "4294967295 < unat (dataBytes (newContext \<lparr> dataBytes := 0xFFFFFFFF \<rparr>)) + unat (1 :: size_t) \<and>
      unat (dataBytes (newContext \<lparr> dataBytes := 0xFFFFFFFF \<rparr>)) + unat (1 :: size_t) < 18446744073709551616"
    by simp
  show ?thesis
    using addDataItem_total_bounded [of newContext 5 "bytes_of ''test1'' @ [0]" True] a
      addDataItem_total_bounded [of "newContext \<lparr> dataBytes := 0xFFFFFFFF \<rparr>" 1 "[7]" False] b
    by (auto simp add: newContext_def)
qed

subsection \<open>The scene graph walker\<close>

lemma gsize_descendants: "gsize g = Suc (descendants g)"
  by (cases g) (simp add: descendants_def)

lemma length_postorder:
  "length (postorder inc n g) = gsize g"
  "length (postorders inc n gs) = sum_list (map gsize gs)"
  by (induction inc n g and inc n gs rule: postorder_postorders.induct) simp_all

lemma addAttributes_append:
  "addAttributes atts (JObject ms) = JObject (ms @ map (\<lambda>(key, val). (key, JString val)) atts)"
  by (induction atts arbitrary: ms) auto

lemma processChildren_from_groups:
  assumes "\<And>g ctx. g \<in> set gs \<Longrightarrow> wfGroup g \<Longrightarrow>
             processGroup ctx g =
               Inr (of_nat (length (rjNodes ctx) + descendants g),
                    ctx \<lparr> rjNodes := rjNodes ctx @ postorder (includeAttributes ctx) (length (rjNodes ctx)) g \<rparr>)"
    and "list_all wfGroup gs"
  shows "processChildren ctx (JArray xs) gs =
           Inr (JArray (xs @ map (\<lambda>i. JUint (of_nat i)) (indices (length (rjNodes ctx)) gs)),
                ctx \<lparr> rjNodes := rjNodes ctx @ postorders (includeAttributes ctx) (length (rjNodes ctx)) gs \<rparr>)"
  using assms
proof (induction gs arbitrary: ctx xs)
  case Nil
  then show ?case by simp
next
  case (Cons g gs)
  have g: "processGroup ctx g =
      Inr (of_nat (length (rjNodes ctx) + descendants g),
           ctx \<lparr> rjNodes := rjNodes ctx @ postorder (includeAttributes ctx) (length (rjNodes ctx)) g \<rparr>)"
    using Cons.prems by simp
  have rest: "processChildren ctx' (JArray ys) gs =
      Inr (JArray (ys @ map (\<lambda>i. JUint (of_nat i)) (indices (length (rjNodes ctx')) gs)),
           ctx' \<lparr> rjNodes := rjNodes ctx' @ postorders (includeAttributes ctx') (length (rjNodes ctx')) gs \<rparr>)"
    for ctx' ys
    using Cons.prems by (intro Cons.IH) simp_all
  show ?case
    by (simp add: g rest length_postorder add.assoc)
qed

lemma processGroup_postorder:
  "wfGroup g \<Longrightarrow>
     processGroup ctx g =
       Inr (of_nat (length (rjNodes ctx) + descendants g),
            ctx \<lparr> rjNodes := rjNodes ctx @ postorder (includeAttributes ctx) (length (rjNodes ctx)) g \<rparr>)"
proof (induction g arbitrary: ctx)
  case (MkGroup k nm atts gs)
  have wf: "k = Group" "list_all wfGroup gs"
    using MkGroup.prems by simp_all
  have ch: "processChildren ctx (JArray []) gs =
      Inr (JArray ([] @ map (\<lambda>i. JUint (of_nat i)) (indices (length (rjNodes ctx)) gs)),
           ctx \<lparr> rjNodes := rjNodes ctx @ postorders (includeAttributes ctx) (length (rjNodes ctx)) gs \<rparr>)"
    by (rule processChildren_from_groups) (use MkGroup.IH wf in auto)
  show ?case
  proof (cases "gs = []")
    case True
    then show ?thesis
      using wf by (cases nm) (simp_all add: Let_def nodeOf_def descendants_def extrasOf_def addAttributes_append)
  next
    case False
    then show ?thesis
      using wf
      by (cases nm) (simp_all add: Let_def ch nodeOf_def descendants_def extrasOf_def addAttributes_append length_postorder)
  qed
qed

lemma indices_append:
  "indices n (xs @ ys) = indices n xs @ indices (n + sum_list (map gsize xs)) ys"
  by (induction xs arbitrary: n) (simp_all add: add.assoc)

lemma postorders_append:
  "postorders inc n (xs @ ys) = postorders inc n xs @ postorders inc (n + sum_list (map gsize xs)) ys"
  by (induction xs arbitrary: n) (simp_all add: add.assoc)

lemma length_indices: "length (indices n gs) = length gs"
  by (induction gs arbitrary: n) simp_all

lemma indices_bounds:
  "i \<in> set (indices n gs) \<Longrightarrow> n \<le> i \<and> i < n + sum_list (map gsize gs)"
proof (induction gs arbitrary: n)
  case Nil
  then show ?case by simp
next
  case (Cons g gs)
  show ?case
  proof (cases "i = n + descendants g")
    case True
    then show ?thesis by (simp add: gsize_descendants)
  next
    case False
    then have "i \<in> set (indices (n + gsize g) gs)"
      using Cons.prems by simp
    from Cons.IH [OF this] show ?thesis by simp
  qed
qed

lemma indices_increasing: "sorted_wrt (<) (indices n gs)"
proof (induction gs arbitrary: n)
  case Nil
  then show ?case by simp
next
  case (Cons g gs)
  have "n + descendants g < i" if "i \<in> set (indices (n + gsize g) gs)" for i
    using indices_bounds [OF that] by (simp add: gsize_descendants)
  then show ?case
    using Cons.IH by simp
qed

lemma processModelGroups_postorders:
  "list_all wfGroup gs \<Longrightarrow>
     processModelGroups ctx siblings gs =
       Inr (siblings @ map of_nat (indices (length (rjNodes ctx)) gs),
            ctx \<lparr> rjNodes := rjNodes ctx @ postorders (includeAttributes ctx) (length (rjNodes ctx)) gs \<rparr>)"
proof (induction gs arbitrary: ctx siblings)
  case Nil
  then show ?case by simp
next
  case (Cons g gs)
  then show ?case
    by (simp add: processGroup_postorder length_postorder add.assoc)
qed

lemma processFileModels_postorders:
  "list_all wfModel ms \<Longrightarrow>
     processFileModels ctx siblings ms =
       Inr (siblings @ map of_nat (indices (length (rjNodes ctx)) (concat (map groups ms))),
            ctx \<lparr> rjNodes := rjNodes ctx @
                    postorders (includeAttributes ctx) (length (rjNodes ctx)) (concat (map groups ms)) \<rparr>)"
proof (induction ms arbitrary: ctx siblings)
  case Nil
  then show ?case by simp
next
  case (Cons m ms)
  then show ?case
    by (simp add: processModel_def wfModel_def processModelGroups_postorders length_postorder
        indices_append postorders_append)
qed

lemma processRoots_postorders:
  "wfStore store \<Longrightarrow>
     processRoots ctx rootNodes store =
       Inr (rootNodes @ map of_nat (indices (length (rjNodes ctx)) (rootGroups store)),
            ctx \<lparr> rjNodes := rjNodes ctx @
                    postorders (includeAttributes ctx) (length (rjNodes ctx)) (rootGroups store) \<rparr>)"
  unfolding wfStore_def
proof (induction store arbitrary: ctx rootNodes)
  case Nil
  then show ?case by (simp add: rootGroups_def)
next
  case (Cons f fs)
  have "rootGroups (f # fs) = concat (map groups (groups f)) @ rootGroups fs"
    by (simp add: rootGroups_def)
  with Cons show ?case
    by (simp add: processFile_def wfFile_def processFileModels_postorders length_postorder
        indices_append postorders_append)
qed

lemma map_filter_uintOf: "List.map_filter uintOf (map (\<lambda>i. JUint (f i)) xs) = map f xs"
  by (induction xs) (simp_all add: List.map_filter_simps)

lemma childrenOf_nodeOf:
  "childrenOf (nodeOf inc n g) = map of_nat (indices n (groups g))"
  by (cases "name g") (simp_all add: childrenOf_def nodeOf_def map_filter_uintOf)

lemma name_nodeOf:
  "FindMember ''name'' (nodeOf inc n g) = map_option JString (name g)"
  by (cases "name g") (simp_all add: nodeOf_def)

lemma extras_nodeOf:
  "FindMember ''extras'' (nodeOf inc n g) =
     (if inc \<and> attributes g \<noteq> [] then Some (extrasOf (attributes g)) else None)"
  by (cases "name g") (simp_all add: nodeOf_def)

lemma unat_of_nat_u32: "i < 4294967296 \<Longrightarrow> unat (of_nat i :: u32) = i"
  by (simp add: unat_of_nat)

lemma children_below:
  "p < length (postorder inc n g) \<Longrightarrow>
     \<exists>is. childrenOf (postorder inc n g ! p) = map of_nat is \<and> (\<forall>i \<in> set is. n \<le> i \<and> i < n + p)"
  "p < length (postorders inc n gs) \<Longrightarrow>
     \<exists>is. childrenOf (postorders inc n gs ! p) = map of_nat is \<and> (\<forall>i \<in> set is. n \<le> i \<and> i < n + p)"
proof (induction inc n g and inc n gs arbitrary: p and p rule: postorder_postorders.induct)
  case (1 inc n k nm atts gs)
  show ?case
  proof (cases "p < length (postorders inc n gs)")
    case True
    then show ?thesis
      using "1.IH" [OF True] by (simp add: nth_append)
  next
    case False
    then have p: "p = sum_list (map gsize gs)"
      using "1.prems" by (simp add: length_postorder)
    have "childrenOf ((postorders inc n gs @ [nodeOf inc n (MkGroup k nm atts gs)]) ! p) =
        map of_nat (indices n gs)"
      by (simp add: p nth_append length_postorder childrenOf_nodeOf)
    moreover have "\<forall>i \<in> set (indices n gs). n \<le> i \<and> i < n + p"
      using indices_bounds [of _ n gs] by (simp add: p)
    ultimately show ?thesis
      by auto
  qed
next
  case (2 inc n)
  then show ?case by simp
next
  case (3 inc n g gs)
  show ?case
  proof (cases "p < gsize g")
    case True
    then show ?thesis
      using "3.IH"(1) [of p] by (simp add: nth_append length_postorder)
  next
    case False
    then have q: "p - gsize g < length (postorders inc (n + gsize g) gs)"
      using "3.prems" by (simp add: length_postorder)
    from "3.IH"(2) [OF q] obtain "is" where
      "childrenOf (postorders inc (n + gsize g) gs ! (p - gsize g)) = map of_nat is"
      "\<forall>i \<in> set is. n + gsize g \<le> i \<and> i < n + gsize g + (p - gsize g)"
      by blast
    then show ?thesis
      using False by (intro exI [of _ "is"]) (auto simp add: nth_append length_postorder)
  qed
qed


lemma representsAll_from_groups:
  assumes "\<And>g pre suf. g \<in> set gs \<Longrightarrow> length pre + gsize g \<le> 4294967296 \<Longrightarrow>
             represents inc (pre @ postorder inc (length pre) g @ suf) (length pre + descendants g) g"
    and "length pre + sum_list (map gsize gs) \<le> 4294967296"
  shows "representsAll inc (pre @ postorders inc (length pre) gs @ suf) (indices (length pre) gs) gs"
  using assms
proof (induction gs arbitrary: pre)
  case Nil
  then show ?case by simp
next
  case (Cons g gs)
  have hd: "represents inc (pre @ postorder inc (length pre) g @ (postorders inc (length pre + gsize g) gs @ suf))
      (length pre + descendants g) g"
    using Cons.prems by (intro Cons.prems(1)) simp_all
  have "representsAll inc ((pre @ postorder inc (length pre) g) @
      postorders inc (length (pre @ postorder inc (length pre) g)) gs @ suf)
      (indices (length (pre @ postorder inc (length pre) g)) gs) gs"
    using Cons.prems by (intro Cons.IH) (simp_all add: length_postorder)
  then have tl: "representsAll inc (pre @ postorder inc (length pre) g @ postorders inc (length pre + gsize g) gs @ suf)
      (indices (length pre + gsize g) gs) gs"
    by (simp add: length_postorder)
  show ?case
    using hd tl by simp
qed

lemma map_unat_indices:
  assumes "n + sum_list (map gsize gs) \<le> 4294967296"
  shows "map (unat \<circ> (of_nat :: nat \<Rightarrow> u32)) (indices n gs) = indices n gs"
proof -
  have "unat (of_nat i :: u32) = i" if "i \<in> set (indices n gs)" for i
    using indices_bounds [OF that] assms by (intro unat_of_nat_u32) simp
  then show ?thesis
    by (simp add: map_idI)
qed

lemma represents_postorder:
  "length pre + gsize g \<le> 4294967296 \<Longrightarrow>
     represents inc (pre @ postorder inc (length pre) g @ suf) (length pre + descendants g) g"
proof (induction g arbitrary: pre suf)
  case (MkGroup k nm atts gs)
  let ?g = "MkGroup k nm atts gs"
  let ?nodes = "pre @ postorder inc (length pre) ?g @ suf"
  have bound: "length pre + sum_list (map gsize gs) \<le> 4294967296"
    using MkGroup.prems by simp
  have at: "?nodes ! (length pre + descendants ?g) = nodeOf inc (length pre) ?g"
    by (simp add: descendants_def nth_append length_postorder)
  have lt: "length pre + descendants ?g < length ?nodes"
    by (simp add: descendants_def length_postorder)
  have "representsAll inc (pre @ postorders inc (length pre) gs @ ([nodeOf inc (length pre) ?g] @ suf))
      (indices (length pre) gs) gs"
    by (rule representsAll_from_groups) (use MkGroup.IH bound in auto)
  then have r: "representsAll inc ?nodes (map unat (childrenOf (nodeOf inc (length pre) ?g))) gs"
    using bound by (simp add: childrenOf_nodeOf map_unat_indices)
  show ?case
    unfolding represents.simps at name_nodeOf extras_nodeOf
    using lt r by simp
qed

lemma representsAll_postorders:
  assumes "length pre + sum_list (map gsize gs) \<le> 4294967296"
  shows "representsAll inc (pre @ postorders inc (length pre) gs @ suf) (indices (length pre) gs) gs"
  by (rule representsAll_from_groups) (use assms represents_postorder in auto)

lemma processChildren_Inr_wf:
  assumes "\<And>g ctx r. g \<in> set gs \<Longrightarrow> processGroup ctx g = Inr r \<Longrightarrow> wfGroup g"
    and "processChildren ctx ch gs = Inr r"
  shows "list_all wfGroup gs"
  using assms
proof (induction gs arbitrary: ctx ch)
  case Nil
  then show ?case by simp
next
  case (Cons g gs)
  from Cons.prems(2) obtain i ctx' where
    g: "processGroup ctx g = Inr (i, ctx')" and
    rest: "processChildren ctx' (PushBack (JUint i) ch) gs = Inr r"
    by (auto split: sum.splits)
  have "wfGroup g"
    using Cons.prems(1) g by simp
  moreover have "list_all wfGroup gs"
    using Cons.prems(1) rest by (intro Cons.IH [of ctx' "PushBack (JUint i) ch"]) simp_all
  ultimately show ?case by simp
qed

lemma processGroup_Inr_wf:
  "processGroup ctx g = Inr r \<Longrightarrow> wfGroup g"
proof (induction g arbitrary: ctx r)
  case (MkGroup k nm atts gs)
  have k: "k = Group"
    using MkGroup.prems by (simp split: if_splits)
  show ?case
  proof (cases "gs = []")
    case True
    then show ?thesis using k by simp
  next
    case False
    then obtain r' where "processChildren ctx (JArray []) gs = Inr r'"
      using MkGroup.prems k by (auto simp add: Let_def split: sum.splits)
    then have "list_all wfGroup gs"
      using MkGroup.IH by (intro processChildren_Inr_wf [of gs ctx "JArray []" r']) simp_all
    then show ?thesis using k by simp
  qed
qed

lemma processModelGroups_Inr_wf:
  "processModelGroups ctx siblings gs = Inr r \<Longrightarrow> list_all wfGroup gs"
proof (induction gs arbitrary: ctx siblings)
  case Nil
  then show ?case by simp
next
  case (Cons g gs)
  then show ?case
    by (auto split: sum.splits dest: processGroup_Inr_wf)
qed

lemma processFileModels_Inr_wf:
  "processFileModels ctx siblings ms = Inr r \<Longrightarrow> list_all wfModel ms"
proof (induction ms arbitrary: ctx siblings)
  case Nil
  then show ?case by simp
next
  case (Cons m ms)
  then show ?case
    by (auto simp add: processModel_def wfModel_def split: sum.splits if_splits
        dest: processModelGroups_Inr_wf)
qed

lemma processRoots_Inr_wf:
  "processRoots ctx rootNodes store = Inr r \<Longrightarrow> wfStore store"
  unfolding wfStore_def
proof (induction store arbitrary: ctx rootNodes)
  case Nil
  then show ?case by simp
next
  case (Cons f fs)
  then show ?case
    by (auto simp add: processFile_def wfFile_def split: sum.splits if_splits
        dest: processFileModels_Inr_wf)
qed

lemma processRoots_not_wf:
  "\<not> wfStore store \<Longrightarrow> processRoots ctx rootNodes store = Inl AssertionFailed"
proof -
  assume "\<not> wfStore store"
  then have "\<nexists>r. processRoots ctx rootNodes store = Inr r"
    using processRoots_Inr_wf by blast
  then show ?thesis
    by (cases "processRoots ctx rootNodes store") (auto intro: error.exhaust)
qed

lemma foldl_PushBack:
  "foldl (\<lambda>a index. PushBack (JUint index) a) (JArray xs) is = JArray (xs @ map JUint is)"
  by (induction "is" arbitrary: xs) simp_all

lemma buildDocument_wf:
  assumes "wfStore store"
  shows "buildDocument store =
    Inr \<lparr> doc = documentOf store,
          rjNodes = postorders True 0 (rootGroups store),
          dataBytes = 10,
          dataItems = [\<lparr> ptr = bytes_of ''test0'' @ [0], item_size = 5 \<rparr>,
                       \<lparr> ptr = bytes_of ''test1'', item_size = 5 \<rparr>],
          includeAttributes = True \<rparr>"
proof -
  have r: "processRoots newContext [] (getFirstRoot store) =
      Inr (map of_nat (indices 0 (rootGroups store)),
           newContext \<lparr> rjNodes := postorders True 0 (rootGroups store) \<rparr>)"
    using processRoots_postorders [OF assms, of newContext "[]"]
    by (simp add: newContext_def getFirstRoot_def)
  have a: "addDataItem ctx p 5 c =
      Inr (0, ctx \<lparr> dataItems := [\<lparr> ptr = (if c then take 5 p else p), item_size = 5 \<rparr>], dataBytes := 5 \<rparr>)"
    if "dataBytes ctx = 0" "dataItems ctx = []" for ctx p c
    using addDataItem_ok [of ctx 5 p c] that by simp
  have b: "addDataItem ctx p 5 c =
      Inr (5, ctx \<lparr> dataItems := [x, \<lparr> ptr = (if c then take 5 p else p), item_size = 5 \<rparr>], dataBytes := 10 \<rparr>)"
    if "dataBytes ctx = 5" "dataItems ctx = [x]" for ctx p c x
    using addDataItem_ok [of ctx 5 p c] that by simp
  show ?thesis
    unfolding buildDocument_def Let_def r
    by (simp add: a b foldl_PushBack newContext_def documentOf_def bytes_of_def)
qed

lemma buildDocument_not_wf:
  "\<not> wfStore store \<Longrightarrow> buildDocument store = Inl AssertionFailed"
  by (simp add: buildDocument_def processRoots_not_wf getFirstRoot_def)

lemma groupCount_wfGroup: "wfGroup g \<Longrightarrow> groupCount g = gsize g"
proof (induction g)
  case (MkGroup k nm atts gs)
  then have "sum_list (map groupCount gs) = sum_list (map gsize gs)"
    by (intro arg_cong [where f = sum_list] map_cong) (simp_all add: list_all_iff)
  with MkGroup.prems show ?case by simp
qed

lemma sum_list_map_concat:
  "sum_list (map f (concat xss)) = sum_list (map (\<lambda>xs. sum_list (map f xs)) xss)"
  by (induction xss) simp_all

lemma groupCount_wfStore:
  assumes "wfStore store"
  shows "sum_list (map groupCount store) = sum_list (map gsize (rootGroups store))"
proof -
  have m: "groupCount m = sum_list (map gsize (groups m))" if "wfModel m" for m
  proof -
    have "sum_list (map groupCount (groups m)) = sum_list (map gsize (groups m))"
      using that
      by (intro arg_cong [where f = sum_list] map_cong)
        (simp_all add: wfModel_def list_all_iff groupCount_wfGroup)
    then show ?thesis
      using that by (cases m) (simp add: wfModel_def)
  qed
  have f: "groupCount f = sum_list (map gsize (concat (map groups (groups f))))" if "wfFile f" for f
  proof -
    have "sum_list (map groupCount (groups f)) =
        sum_list (map (\<lambda>m. sum_list (map gsize (groups m))) (groups f))"
      using that
      by (intro arg_cong [where f = sum_list] map_cong) (simp_all add: wfFile_def list_all_iff m)
    then have "sum_list (map groupCount (groups f)) = sum_list (map gsize (concat (map groups (groups f))))"
      by (simp add: sum_list_map_concat comp_def)
    then show ?thesis
      using that by (cases f) (simp add: wfFile_def)
  qed
  have "sum_list (map groupCount store) =
      sum_list (map (\<lambda>f. sum_list (map gsize (concat (map groups (groups f))))) store)"
    using assms
    by (intro arg_cong [where f = sum_list] map_cong) (simp_all add: wfStore_def list_all_iff f)
  then show ?thesis
    by (simp add: rootGroups_def sum_list_map_concat comp_def)
qed

lemma sampleStore_wf: "wfStore sampleStore"
  by (simp add: sampleStore_def wfStore_def wfFile_def wfModel_def)

lemma sampleStore_bound: "sum_list (map gsize (rootGroups sampleStore)) \<le> 4294967296"
  by (simp add: sampleStore_def rootGroups_def)

lemma sampleStore_nodes:
  "postorders True 0 (rootGroups sampleStore) =
     [JObject [(''name'', JString ''A''), (''extras'', JObject [(''unit'', JString ''mm'')])],
      JObject [(''name'', JString ''C'')],
      JObject [(''name'', JString ''B''), (''children'', JArray [JUint 1])]]"
  by (simp add: sampleStore_def rootGroups_def nodeOf_def extrasOf_def descendants_def)

lemma sampleStore_document:
  "documentOf sampleStore =
     JObject [(''asset'', JObject []), (''scene'', JInt 0),
       (''scenes'', JArray [JObject [(''nodes'', JArray [JUint 0, JUint 2])]]),
       (''nodes'', JArray
          [JObject [(''name'', JString ''A''), (''extras'', JObject [(''unit'', JString ''mm'')])],
           JObject [(''name'', JString ''C'')],
           JObject [(''name'', JString ''B''), (''children'', JArray [JUint 1])]]),
       (''meshes'', JArray []), (''accessors'', JArray []),
       (''bufferViews'', JArray []), (''buffers'', JArray [])]"
  unfolding documentOf_def sampleStore_nodes
  by (simp add: sampleStore_def rootGroups_def descendants_def)

lemma nodes_children_below:
  assumes "sum_list (map gsize gs) \<le> 4294967296"
    and "p < length (postorders inc 0 gs)"
    and "c \<in> set (childrenOf (postorders inc 0 gs ! p))"
  shows "unat c < p"
proof -
  from children_below(2) [OF assms(2)] obtain "is" where
    eq: "childrenOf (postorders inc 0 gs ! p) = map of_nat is" and lt: "\<forall>i \<in> set is. i < p"
    by auto
  from assms(3) eq obtain i where i: "i \<in> set is" "c = of_nat i"
    by auto
  have "i < p"
    using lt i(1) by blast
  moreover have "p < 4294967296"
    using assms(1,2) by (simp add: length_postorder)
  ultimately show ?thesis
    using i(2) by (simp add: unat_of_nat_u32)
qed

text \<open>
  C4: no forward references in the node array. For a well-formed forest (with at
  most \<open>2^32\<close> Group nodes, so that the 32-bit indices do not wrap) the walk succeeds,
  the node of every root Group and, through the \<^verbatim>\<open>children\<close> arrays, of every Group
  below it is in the array (\<open>representsAll\<close>), and every index listed in the
  \<^verbatim>\<open>children\<close> array of the node at position \<open>p\<close> is strictly less than \<open>p\<close>: a node is
  appended after all of its children, at the size the array has then.
\<close>

theorem child_index_below_parent:
  assumes "wfStore store" and "sum_list (map gsize (rootGroups store)) \<le> 4294967296"
  shows "\<exists>ctx nodes. buildDocument store = Inr ctx \<and>
           FindMember ''nodes'' (doc ctx) = Some (JArray nodes) \<and>
           representsAll True nodes (indices 0 (rootGroups store)) (rootGroups store) \<and>
           (\<forall>p < length nodes. \<forall>c \<in> set (childrenOf (nodes ! p)). unat c < p)"
proof -
  let ?nodes = "postorders True 0 (rootGroups store)"
  have r: "representsAll True ?nodes (indices 0 (rootGroups store)) (rootGroups store)"
    using representsAll_postorders [of "[]" "rootGroups store" True "[]"] assms(2) by simp
  have b: "\<forall>p < length ?nodes. \<forall>c \<in> set (childrenOf (?nodes ! p)). unat c < p"
    using nodes_children_below [OF assms(2)] by blast
  show ?thesis
    using r b by (simp add: buildDocument_wf [OF assms(1)] documentOf_def)
qed

theorem child_index_below_parent_witness:
  "wfStore sampleStore \<and> sum_list (map gsize (rootGroups sampleStore)) \<le> 4294967296 \<and>
   (\<exists>ctx nodes. buildDocument sampleStore = Inr ctx \<and>
      FindMember ''nodes'' (doc ctx) = Some (JArray nodes) \<and>
      representsAll True nodes [0, 2] (rootGroups sampleStore) \<and>
      length nodes = 3 \<and> childrenOf (nodes ! 2) = [1] \<and> unat (1 :: u32) < 2)"
proof -
  have ix: "indices 0 (rootGroups sampleStore) = [0, 2]"
    by (simp add: sampleStore_def rootGroups_def descendants_def)
  from child_index_below_parent [OF sampleStore_wf sampleStore_bound] obtain ctx nodes where
    c: "buildDocument sampleStore = Inr ctx"
      "FindMember ''nodes'' (doc ctx) = Some (JArray nodes)"
      "representsAll True nodes (indices 0 (rootGroups sampleStore)) (rootGroups sampleStore)"
      "\<forall>p < length nodes. \<forall>c \<in> set (childrenOf (nodes ! p)). unat c < p"
    by (elim exE conjE)
  have n: "nodes = postorders True 0 (rootGroups sampleStore)"
    using c(1,2) by (auto simp add: buildDocument_wf [OF sampleStore_wf] documentOf_def)
  have ch: "childrenOf (nodes ! 2) = [1]"
    by (simp add: n sampleStore_nodes childrenOf_def List.map_filter_simps)
  have len: "length nodes = 3"
    by (simp add: n sampleStore_nodes)
  have lt: "unat (1 :: u32) < 2"
    using c(4) ch len by auto
  have "buildDocument sampleStore = Inr ctx \<and>
      FindMember ''nodes'' (doc ctx) = Some (JArray nodes) \<and>
      representsAll True nodes [0, 2] (rootGroups sampleStore) \<and>
      length nodes = 3 \<and> childrenOf (nodes ! 2) = [1] \<and> unat (1 :: u32) < 2"
    using c(1,2) c(3) [unfolded ix] len ch lt by (intro conjI)
  then have "\<exists>ctx nodes. buildDocument sampleStore = Inr ctx \<and>
      FindMember ''nodes'' (doc ctx) = Some (JArray nodes) \<and>
      representsAll True nodes [0, 2] (rootGroups sampleStore) \<and>
      length nodes = 3 \<and> childrenOf (nodes ! 2) = [1] \<and> unat (1 :: u32) < 2"
    by (rule_tac x = ctx in exI, rule_tac x = nodes in exI)
  with sampleStore_wf sampleStore_bound show ?thesis
    by (intro conjI)
qed

lemma roots_increasing:
  assumes "n + sum_list (map gsize gs) \<le> 4294967296"
  shows "sorted_wrt (<) (map of_nat (indices n gs) :: u32 list)"
proof -
  have "sorted_wrt (\<lambda>i j. (of_nat i :: u32) < of_nat j) (indices n gs)"
  proof (rule sorted_wrt_mono_rel [OF _ indices_increasing])
    fix i j
    assume ij: "i \<in> set (indices n gs)" "j \<in> set (indices n gs)" "i < j"
    have "i < 4294967296" "j < 4294967296"
      using indices_bounds [OF ij(1)] indices_bounds [OF ij(2)] assms by simp_all
    then show "(of_nat i :: u32) < of_nat j"
      using ij(3) by (simp add: word_less_nat_alt unat_of_nat_u32)
  qed
  then show ?thesis
    by (simp add: sorted_wrt_map)
qed

text \<open>
  C5: root completeness. For a well-formed forest (at most \<open>2^32\<close> Group nodes) the
  array \<^verbatim>\<open>scenes[0].nodes\<close> holds one index per direct Group child of every Model of
  every File, in File, Model, Group order (\<open>rootGroups\<close>); the index at position \<open>k\<close>
  designates the node of the \<open>k\<close>-th such Group; the indices increase strictly, so
  none repeats; and the node array has as many elements as the forest has nodes of
  kind Group: File and Model nodes yield no JSON node.
\<close>

theorem scene_roots_complete:
  assumes "wfStore store" and "sum_list (map gsize (rootGroups store)) \<le> 4294967296"
  shows "\<exists>ctx nodes roots. buildDocument store = Inr ctx \<and>
           FindMember ''scenes'' (doc ctx) =
             Some (JArray [JObject [(''nodes'', JArray (map JUint roots))]]) \<and>
           FindMember ''nodes'' (doc ctx) = Some (JArray nodes) \<and>
           length roots = length (rootGroups store) \<and>
           representsAll True nodes (map unat roots) (rootGroups store) \<and>
           sorted_wrt (<) roots \<and> distinct roots \<and>
           length nodes = sum_list (map groupCount store)"
proof -
  let ?gs = "rootGroups store"
  let ?roots = "map of_nat (indices 0 ?gs) :: u32 list"
  let ?nodes = "postorders True 0 ?gs"
  have inc: "sorted_wrt (<) ?roots"
    using roots_increasing [of 0 ?gs] assms(2) by simp
  have dist: "distinct ?roots"
    using inc by (simp add: strict_sorted_iff)
  have un: "map unat ?roots = indices 0 ?gs"
    using map_unat_indices [of 0 ?gs] assms(2) by simp
  have r: "representsAll True ?nodes (map unat ?roots) ?gs"
    unfolding un
    using representsAll_postorders [of "[]" ?gs True "[]"] assms(2) by simp
  have len: "length ?nodes = sum_list (map groupCount store)"
    by (simp add: length_postorder groupCount_wfStore [OF assms(1)])
  have sc: "FindMember ''scenes'' (documentOf store) =
      Some (JArray [JObject [(''nodes'', JArray (map JUint ?roots))]])"
    by (simp add: documentOf_def comp_def)
  have nd: "FindMember ''nodes'' (documentOf store) = Some (JArray ?nodes)"
    by (simp add: documentOf_def)
  have ln: "length ?roots = length ?gs"
    by (simp add: length_indices)
  let ?ctx = "\<lparr> doc = documentOf store, rjNodes = ?nodes, dataBytes = 10,
      dataItems = [\<lparr> ptr = bytes_of ''test0'' @ [0], item_size = 5 \<rparr>,
                   \<lparr> ptr = bytes_of ''test1'', item_size = 5 \<rparr>],
      includeAttributes = True \<rparr>"
  have d: "doc ?ctx = documentOf store"
    by simp
  have "buildDocument store = Inr ?ctx \<and>
      FindMember ''scenes'' (doc ?ctx) = Some (JArray [JObject [(''nodes'', JArray (map JUint ?roots))]]) \<and>
      FindMember ''nodes'' (doc ?ctx) = Some (JArray ?nodes) \<and>
      length ?roots = length ?gs \<and>
      representsAll True ?nodes (map unat ?roots) ?gs \<and>
      sorted_wrt (<) ?roots \<and> distinct ?roots \<and>
      length ?nodes = sum_list (map groupCount store)"
    unfolding d using buildDocument_wf [OF assms(1)] sc nd ln r inc dist len by (intro conjI)
  then show ?thesis
    by (rule_tac x = ?ctx in exI, rule_tac x = ?nodes in exI, rule_tac x = ?roots in exI)
qed

theorem scene_roots_complete_witness:
  "wfStore sampleStore \<and> sum_list (map gsize (rootGroups sampleStore)) \<le> 4294967296 \<and>
   (\<exists>ctx nodes. buildDocument sampleStore = Inr ctx \<and>
      FindMember ''scenes'' (doc ctx) = Some (JArray [JObject [(''nodes'', JArray (map JUint [0, 2]))]]) \<and>
      FindMember ''nodes'' (doc ctx) = Some (JArray nodes) \<and>
      representsAll True nodes (map unat [0, 2 :: u32]) (rootGroups sampleStore) \<and>
      distinct [0, 2 :: u32] \<and> length nodes = 3)"
proof -
  from scene_roots_complete [OF sampleStore_wf sampleStore_bound] obtain ctx nodes roots where
    c: "buildDocument sampleStore = Inr ctx"
      "FindMember ''scenes'' (doc ctx) = Some (JArray [JObject [(''nodes'', JArray (map JUint roots))]])"
      "FindMember ''nodes'' (doc ctx) = Some (JArray nodes)"
      "representsAll True nodes (map unat roots) (rootGroups sampleStore)"
      "distinct roots"
      "length nodes = sum_list (map groupCount sampleStore)"
    by blast
  have d: "doc ctx = documentOf sampleStore"
    using c(1) by (auto simp add: buildDocument_wf [OF sampleStore_wf])
  have "map JUint roots = [JUint 0, JUint 2]"
    using c(2) unfolding d sampleStore_document by simp
  then have roots: "roots = [0, 2]"
    by auto
  have "length nodes = 3"
    using c(6) by (simp add: sampleStore_def)
  then show ?thesis
    using sampleStore_wf sampleStore_bound c(1,2,3,4,5) unfolding roots by blast
qed

lemma processGroup_last_node:
  assumes "wfGroup g"
  shows "\<exists>i ctx'. processGroup ctx g = Inr (i, ctx') \<and>
           last (rjNodes ctx') = nodeOf (includeAttributes ctx) (length (rjNodes ctx)) g"
proof -
  have "last (postorder inc n g) = nodeOf inc n g \<and> postorder inc n g \<noteq> []" for inc n
    by (cases g) simp
  then show ?thesis
    by (simp add: processGroup_postorder [OF assms])
qed



text \<open>
  C3, as amended: the \<^verbatim>\<open>extras\<close> object has one member per attribute, in source
  iteration order, each with its own key and value; attributes that share a key are
  all emitted, the later behind the earlier, and none replaces another.
\<close>

theorem attributes_all_emitted:
  assumes "wfGroup g" and "includeAttributes ctx" and "attributes g \<noteq> []"
  shows "\<exists>i ctx' ms. processGroup ctx g = Inr (i, ctx') \<and>
           FindMember ''extras'' (last (rjNodes ctx')) = Some (JObject ms) \<and>
           length ms = length (attributes g) \<and>
           (\<forall>j < length ms. ms ! j = (fst (attributes g ! j), JString (snd (attributes g ! j))))"
proof -
  from processGroup_last_node [OF assms(1), of ctx] obtain i ctx' where
    c: "processGroup ctx g = Inr (i, ctx')"
      "last (rjNodes ctx') = nodeOf (includeAttributes ctx) (length (rjNodes ctx)) g"
    by blast
  let ?ms = "map (\<lambda>(key, val). (key, JString val)) (attributes g)"
  have "FindMember ''extras'' (last (rjNodes ctx')) = Some (JObject ?ms)"
    using assms(2,3) by (simp add: c(2) extras_nodeOf extrasOf_def)
  moreover have "length ?ms = length (attributes g)"
    by simp
  moreover have "\<forall>j < length ?ms. ?ms ! j = (fst (attributes g ! j), JString (snd (attributes g ! j)))"
    by (simp add: case_prod_beta)
  ultimately show ?thesis
    using c(1) by blast
qed

theorem attributes_all_emitted_witness:
  "wfGroup (MkGroup Group None [(''k'', ''1''), (''k'', ''2'')] []) \<and>
   includeAttributes newContext \<and>
   attributes (MkGroup Group None [(''k'', ''1''), (''k'', ''2'')] []) \<noteq> [] \<and>
   (\<exists>i ctx' ms. processGroup newContext (MkGroup Group None [(''k'', ''1''), (''k'', ''2'')] []) = Inr (i, ctx') \<and>
      FindMember ''extras'' (last (rjNodes ctx')) = Some (JObject ms) \<and>
      length ms = 2 \<and> ms ! 0 = (''k'', JString ''1'') \<and> ms ! 1 = (''k'', JString ''2''))"
proof -
  let ?g = "MkGroup Group None [(''k'', ''1''), (''k'', ''2'')] []"
  have h: "wfGroup ?g" "includeAttributes newContext" "attributes ?g \<noteq> []"
    by (simp_all add: newContext_def)
  from attributes_all_emitted [OF h] obtain i ctx' ms where
    c: "processGroup newContext ?g = Inr (i, ctx')"
      "FindMember ''extras'' (last (rjNodes ctx')) = Some (JObject ms)"
      "length ms = length (attributes ?g)"
      "\<forall>j < length ms. ms ! j = (fst (attributes ?g ! j), JString (snd (attributes ?g ! j)))"
    by blast
  have len: "length ms = 2"
    using c(3) by simp
  have "ms ! 0 = (''k'', JString ''1'')" "ms ! 1 = (''k'', JString ''2'')"
    using c(4) len by simp_all
  then show ?thesis
    using h c(1,2) len by blast
qed

text \<open>
  C3 as stated fails: for a Group with the attributes \<open>k = 1\<close> and \<open>k = 2\<close> the emitted
  \<^verbatim>\<open>extras\<close> object has two members named \<open>k\<close>, the first still with the value \<open>1\<close>,
  and the writer emits both.
\<close>

theorem duplicate_key_counterexample:
  "processGroup newContext (MkGroup Group None [(''k'', ''1''), (''k'', ''2'')] []) =
     Inr (0, newContext \<lparr> rjNodes :=
               [JObject [(''extras'', JObject [(''k'', JString ''1''), (''k'', JString ''2'')])]] \<rparr>) \<and>
   \<not> distinct (map fst [(''k'', JString ''1''), (''k'', JString ''2'')]) \<and>
   writeJson (JObject [(''k'', JString ''1''), (''k'', JString ''2'')]) =
     ''{'' @ [CHR 0x22] @ ''k'' @ [CHR 0x22] @ '':'' @ [CHR 0x22] @ ''1'' @ [CHR 0x22] @ '','' @
     [CHR 0x22] @ ''k'' @ [CHR 0x22] @ '':'' @ [CHR 0x22] @ ''2'' @ [CHR 0x22] @ ''}''"
  by (simp add: newContext_def Let_def writeString_def escapeChar_def)

subsection \<open>The container writer\<close>

lemma fwrite_True:
  assumes "fwrite bs s = (True, s')"
  shows "bs \<noteq> [] \<and> disk s' = disk s @ bs \<and> handle s' = handle s \<and> logged s' = logged s \<and>
         open_error s' = open_error s \<and> future s' = drop 1 (future s)"
  using assms by (auto simp add: fwrite_def split: if_splits list.splits outcome.splits)

lemma fwrite_False:
  assumes "fwrite bs s = (False, s')"
  shows "handle s' = handle s \<and> logged s' = logged s \<and>
         (\<exists>part. disk s' = disk s @ part \<and> length part < max 1 (length bs))"
  using assms by (auto simp add: fwrite_def split: if_splits list.splits outcome.splits)

lemma writeDataItems_True:
  "writeDataItems path off items s = (True, off', s') \<Longrightarrow>
     disk s' = disk s @ payload items \<and> off' = off + sum_list (map item_size items) \<and>
     handle s' = handle s \<and> logged s' = logged s"
proof (induction items arbitrary: off s)
  case Nil
  then show ?case by (simp add: payload_def)
next
  case (Cons item rest)
  obtain ok s1 where w: "fwrite (take (unat (item_size item)) (ptr item)) s = (ok, s1)"
    by (cases "fwrite (take (unat (item_size item)) (ptr item)) s")
  with Cons.prems have ok: "ok" and r: "writeDataItems path (off + item_size item) rest s1 = (True, off', s')"
    by (auto split: if_splits)
  have wT: "fwrite (take (unat (item_size item)) (ptr item)) s = (True, s1)"
    using w ok by simp
  from fwrite_True [OF wT] Cons.IH [OF r] show ?case
    by (simp add: payload_def add.assoc)
qed

lemma writeDataItems_False:
  "writeDataItems path off items s = (False, off', s') \<Longrightarrow>
     (\<exists>k part. k < length items \<and>
        off' = off + sum_list (map item_size (take k items)) \<and>
        disk s' = disk s @ payload (take k items) @ part \<and>
        length part < max 1 (length (take (unat (item_size (items ! k))) (ptr (items ! k))))) \<and>
     logged s' = logged s @ [(2, ''%s: Error writing BIN chunk data at offset %u'', [ArgStr path, ArgUInt off'])] \<and>
     handle s' = Closed"
proof (induction items arbitrary: off s)
  case Nil
  then show ?case by simp
next
  case (Cons item rest)
  obtain ok s1 where w: "fwrite (take (unat (item_size item)) (ptr item)) s = (ok, s1)"
    by (cases "fwrite (take (unat (item_size item)) (ptr item)) s")
  show ?case
  proof (cases ok)
    case True
    with Cons.prems w have r: "writeDataItems path (off + item_size item) rest s1 = (False, off', s')"
      by simp
    from Cons.IH [OF r] obtain k part where
      k: "k < length rest" "off' = off + item_size item + sum_list (map item_size (take k rest))"
        "disk s' = disk s1 @ payload (take k rest) @ part"
        "length part < max 1 (length (take (unat (item_size (rest ! k))) (ptr (rest ! k))))"
      and l: "logged s' = logged s1 @ [(2, ''%s: Error writing BIN chunk data at offset %u'', [ArgStr path, ArgUInt off'])]"
        "handle s' = Closed"
      by blast
    have wT: "fwrite (take (unat (item_size item)) (ptr item)) s = (True, s1)"
      using w True by simp
    from fwrite_True [OF wT] have
      s1: "disk s1 = disk s @ take (unat (item_size item)) (ptr item)" "logged s1 = logged s"
      by simp_all
    have "\<exists>k part. k < length (item # rest) \<and>
        off' = off + sum_list (map item_size (take k (item # rest))) \<and>
        disk s' = disk s @ payload (take k (item # rest)) @ part \<and>
        length part < max 1 (length (take (unat (item_size ((item # rest) ! k))) (ptr ((item # rest) ! k))))"
      using k s1 by (intro exI [of _ "Suc k"] exI [of _ part]) (simp add: payload_def add.assoc)
    then show ?thesis
      using l s1 by simp
  next
    case False
    with Cons.prems w have e: "off' = off"
      "s' = fclose (logger 2 ''%s: Error writing BIN chunk data at offset %u'' [ArgStr path, ArgUInt off] s1)"
      by auto
    have wF: "fwrite (take (unat (item_size item)) (ptr item)) s = (False, s1)"
      using w False by simp
    from fwrite_False [OF wF] obtain part where
      p: "handle s1 = handle s" "logged s1 = logged s" "disk s1 = disk s @ part"
        "length part < max 1 (length (take (unat (item_size item)) (ptr item)))"
      by blast
    have "\<exists>k part. k < length (item # rest) \<and>
        off' = off + sum_list (map item_size (take k (item # rest))) \<and>
        disk s' = disk s @ payload (take k (item # rest)) @ part \<and>
        length part < max 1 (length (take (unat (item_size ((item # rest) ! k))) (ptr ((item # rest) ! k))))"
      using p e by (intro exI [of _ 0] exI [of _ part]) (simp add: payload_def fclose_def logger_def)
    moreover have "logged s' = logged s @ [(2, ''%s: Error writing BIN chunk data at offset %u'', [ArgStr path, ArgUInt off'])]"
      "handle s' = Closed"
      using p e by (simp_all add: fclose_def logger_def)
    ultimately show ?thesis
      by simp
  qed
qed

lemma writeContainer_True:
  assumes "writeContainer ctx path s = Inr (True, s')"
  shows "disk s' = disk s @ containerHead ctx @ payload (dataItems ctx) \<and>
         handle s' = Closed \<and> logged s' = logged s"
  using assms unfolding writeContainer_def Let_def
  by (auto split: prod.splits if_splits dest!: fwrite_True writeDataItems_True
      simp add: containerHead_def fclose_def)

lemma writeContainer_False:
  assumes "writeContainer ctx path s = Inr (False, s')"
  shows "\<exists>fmt args. logged s' = logged s @ [(2, fmt, args)] \<and> ArgStr path \<in> set args \<and>
           handle s' = Closed \<and>
           (fmt = ''%s: Error writing BIN chunk data at offset %u'' \<longrightarrow>
              (\<exists>k part. k < length (dataItems ctx) \<and>
                 args = [ArgStr path, ArgUInt (sum_list (map item_size (take k (dataItems ctx))))] \<and>
                 disk s' = disk s @ containerHead ctx @ payload (take k (dataItems ctx)) @ part \<and>
                 length part < max 1 (length (take (unat (item_size (dataItems ctx ! k))) (ptr (dataItems ctx ! k))))))"
  using assms unfolding writeContainer_def Let_def
  by (auto split: prod.splits if_splits dest!: fwrite_True fwrite_False writeDataItems_False
      simp add: containerHead_def fclose_def logger_def)

lemma fwrite_flag:
  assumes "bs \<noteq> []"
  shows "\<exists>s1. fwrite bs s = (allComplete 1 (future s), s1) \<and> future s1 = drop 1 (future s)"
proof (cases "future s")
  case Nil
  then show ?thesis using assms by (simp add: fwrite_def)
next
  case (Cons a r)
  then show ?thesis using assms by (cases a) (simp_all add: fwrite_def)
qed

lemma allComplete_Suc:
  "allComplete (Suc n) fs = (allComplete 1 fs \<and> allComplete n (drop 1 fs))"
proof (cases fs)
  case Nil
  then show ?thesis by (cases n) simp_all
next
  case (Cons a r)
  then show ?thesis by (cases a) simp_all
qed

lemma writeDataItems_flag:
  assumes "\<forall>item \<in> set items. take (unat (item_size item)) (ptr item) \<noteq> []"
  shows "\<exists>off' s'. writeDataItems path off items s = (allComplete (length items) (future s), off', s')"
  using assms
proof (induction items arbitrary: off s)
  case Nil
  then show ?case by simp
next
  case (Cons item rest)
  from fwrite_flag [of "take (unat (item_size item)) (ptr item)" s] Cons.prems obtain s1 where
    w: "fwrite (take (unat (item_size item)) (ptr item)) s = (allComplete 1 (future s), s1)"
      "future s1 = drop 1 (future s)"
    by auto
  from Cons.IH [of "off + item_size item" s1] Cons.prems obtain off' s' where
    r: "writeDataItems path (off + item_size item) rest s1 = (allComplete (length rest) (future s1), off', s')"
    by auto
  show ?case
    using w r by (cases "allComplete 1 (future s)") (simp_all add: allComplete_Suc [of "length rest"])
qed

lemma le32_nonempty: "le32 w \<noteq> []"
  by (simp add: le32_def)

lemma writeContainer_flag:
  assumes "doc ctx = JObject ms" and "dataBytes ctx \<noteq> 0"
    and "\<forall>item \<in> set (dataItems ctx). take (unat (item_size item)) (ptr item) \<noteq> []"
  shows "\<exists>s'. writeContainer ctx path s = Inr (allComplete (4 + length (dataItems ctx)) (future s), s')"
proof -
  let ?h = "le32 0x46546C67 @ le32 2 @ le32 28"
  let ?buf = "bytes_of (writeJson (doc ctx))"
  let ?jh = "le32 (of_nat (length ?buf)) @ le32 0x4E4F534A"
  let ?bh = "le32 (dataBytes ctx) @ le32 0x004E4942"
  have ne: "?h \<noteq> []" "?jh \<noteq> []" "?buf \<noteq> []" "?bh \<noteq> []"
    using assms(1) by (simp_all add: le32_nonempty bytes_of_def)
  from fwrite_flag [OF ne(1), of s] obtain s1 where
    w1: "fwrite ?h s = (allComplete 1 (future s), s1)" "future s1 = drop 1 (future s)"
    by blast
  from fwrite_flag [OF ne(2), of s1] obtain s2 where
    w2: "fwrite ?jh s1 = (allComplete 1 (future s1), s2)" "future s2 = drop 1 (future s1)"
    by blast
  from fwrite_flag [OF ne(3), of s2] obtain s3 where
    w3: "fwrite ?buf s2 = (allComplete 1 (future s2), s3)" "future s3 = drop 1 (future s2)"
    by blast
  from fwrite_flag [OF ne(4), of s3] obtain s4 where
    w4: "fwrite ?bh s3 = (allComplete 1 (future s3), s4)" "future s4 = drop 1 (future s3)"
    by blast
  from writeDataItems_flag [OF assms(3), of path 0 s4] obtain off' s5 where
    w5: "writeDataItems path 0 (dataItems ctx) s4 = (allComplete (length (dataItems ctx)) (future s4), off', s5)"
    by blast
  have split: "allComplete (4 + length (dataItems ctx)) (future s) =
      (allComplete 1 (future s) \<and> allComplete 1 (future s1) \<and> allComplete 1 (future s2) \<and>
       allComplete 1 (future s3) \<and> allComplete (length (dataItems ctx)) (future s4))"
    using allComplete_Suc [of "3 + length (dataItems ctx)" "future s"]
      allComplete_Suc [of "2 + length (dataItems ctx)" "future s1"]
      allComplete_Suc [of "1 + length (dataItems ctx)" "future s2"]
      allComplete_Suc [of "length (dataItems ctx)" "future s3"]
    by (simp add: w1(2) w2(2) w3(2) w4(2) eval_nat_numeral)
  show ?thesis
    unfolding writeContainer_def Let_def split
    using assms(2) by (simp add: w1(1) w2(1) w3(1) w4(1) w5)
qed

lemma buildDocument_Inr:
  assumes "buildDocument store = Inr ctx"
  shows "wfStore store \<and> doc ctx = documentOf store \<and> dataBytes ctx = 10 \<and>
         dataItems ctx = placeholders"
proof -
  have wf: "wfStore store"
    using assms buildDocument_not_wf [of store] by auto
  show ?thesis
    using assms wf by (auto simp add: buildDocument_wf [OF wf] placeholders_def)
qed

lemma payload_placeholders: "payload placeholders = bytes_of ''test0test1''"
  by (simp add: payload_def placeholders_def bytes_of_def)

lemma payload_take_placeholders:
  "k < 2 \<Longrightarrow> payload (take k placeholders) = take (5 * k) (bytes_of ''test0test1'')"
proof -
  assume "k < 2"
  then consider "k = 0" | "k = 1" by linarith
  then show ?thesis
    by cases (simp_all add: payload_def placeholders_def bytes_of_def)
qed

lemma exportGLTF_True:
  assumes "exportGLTF pf store path s = Inr (True, s')"
  shows "open_error s = None \<and>
         (\<exists>ctx. buildDocument store = Inr ctx \<and>
            disk s' = containerHead ctx @ payload (dataItems ctx) \<and>
            handle s' = Closed \<and> logged s' = logged s)"
proof (cases "open_error s")
  case (Some buf)
  then show ?thesis
    using assms by (cases pf) (simp_all add: exportGLTF_def)
next
  case None
  then obtain ctx where b: "buildDocument store = Inr ctx"
    and w: "writeContainer ctx path (s \<lparr> disk := [], handle := Opened \<rparr>) = Inr (True, s')"
    using assms by (auto simp add: exportGLTF_def split: sum.splits)
  from writeContainer_True [OF w] show ?thesis
    using None b by simp
qed

lemma exportGLTF_False:
  assumes "exportGLTF pf store path s = Inr (False, s')"
  shows "\<exists>fmt args. logged s' = logged s @ [(2, fmt, args)] \<and> ArgStr path \<in> set args \<and>
           handle s' = (if open_error s = None then Closed else handle s) \<and>
           (fmt = ''%s: Error writing BIN chunk data at offset %u'' \<longrightarrow>
              (\<exists>k part ctx. k < 2 \<and> args = [ArgStr path, ArgUInt (5 * of_nat k)] \<and>
                 buildDocument store = Inr ctx \<and>
                 disk s' = containerHead ctx @ take (5 * k) (bytes_of ''test0test1'') @ part \<and>
                 length part < 5))"
proof (cases "open_error s")
  case (Some buf)
  then show ?thesis
    using assms by (cases pf) (auto simp add: exportGLTF_def logger_def)
next
  case None
  then obtain ctx where b: "buildDocument store = Inr ctx"
    and w: "writeContainer ctx path (s \<lparr> disk := [], handle := Opened \<rparr>) = Inr (False, s')"
    using assms by (auto simp add: exportGLTF_def split: sum.splits)
  have items: "dataItems ctx = placeholders"
    using buildDocument_Inr [OF b] by simp
  from writeContainer_False [OF w] obtain fmt args where
    l: "logged s' = logged s @ [(2, fmt, args)]" "ArgStr path \<in> set args" "handle s' = Closed"
    and bin: "fmt = ''%s: Error writing BIN chunk data at offset %u'' \<longrightarrow>
      (\<exists>k part. k < length placeholders \<and>
         args = [ArgStr path, ArgUInt (sum_list (map item_size (take k placeholders)))] \<and>
         disk s' = containerHead ctx @ payload (take k placeholders) @ part \<and>
         length part < max 1 (length (take (unat (item_size (placeholders ! k))) (ptr (placeholders ! k)))))"
    unfolding items by auto
  have "\<exists>k part ctx. k < 2 \<and> args = [ArgStr path, ArgUInt (5 * of_nat k)] \<and>
      buildDocument store = Inr ctx \<and>
      disk s' = containerHead ctx @ take (5 * k) (bytes_of ''test0test1'') @ part \<and> length part < 5"
    if "fmt = ''%s: Error writing BIN chunk data at offset %u''"
  proof -
    from bin that obtain k part where
      k: "k < length placeholders"
        "args = [ArgStr path, ArgUInt (sum_list (map item_size (take k placeholders)))]"
        "disk s' = containerHead ctx @ payload (take k placeholders) @ part"
        "length part < max 1 (length (take (unat (item_size (placeholders ! k))) (ptr (placeholders ! k))))"
      by blast
    have k2: "k < 2"
      using k(1) by (simp add: placeholders_def)
    then consider "k = 0" | "k = 1" by linarith
    then have "sum_list (map item_size (take k placeholders)) = 5 * of_nat k \<and>
        max 1 (length (take (unat (item_size (placeholders ! k))) (ptr (placeholders ! k)))) = 5"
      by cases (simp_all add: placeholders_def bytes_of_def)
    then show ?thesis
      using k k2 b payload_take_placeholders [OF k2] by auto
  qed
  then show ?thesis
    using l None by simp
qed

lemma exportGLTF_flag:
  assumes "wfStore store"
  shows "\<exists>s'. exportGLTF pf store path s = Inr (open_error s = None \<and> allComplete 6 (future s), s')"
proof (cases "open_error s")
  case (Some buf)
  then show ?thesis
    by (cases pf) (simp_all add: exportGLTF_def)
next
  case None
  let ?ctx = "\<lparr> doc = documentOf store, rjNodes = postorders True 0 (rootGroups store),
      dataBytes = 10, dataItems = placeholders, includeAttributes = True \<rparr>"
  have b: "buildDocument store = Inr ?ctx"
    using buildDocument_wf [OF assms] by (simp add: placeholders_def)
  have "\<exists>s'. writeContainer ?ctx path (s \<lparr> disk := [], handle := Opened \<rparr>) =
      Inr (allComplete (4 + length (dataItems ?ctx)) (future (s \<lparr> disk := [], handle := Opened \<rparr>)), s')"
    by (rule writeContainer_flag [of ?ctx]) (simp_all add: documentOf_def placeholders_def bytes_of_def)
  then show ?thesis
    using None b by (simp add: exportGLTF_def placeholders_def)
qed

lemma empty_json:
  \<open>writeJson (documentOf []) =
     ''{"asset":{},"scene":0,"scenes":[{"nodes":[]}],"nodes":[],"meshes":[],"accessors":[],"bufferViews":[],"buffers":[]}''\<close>
  by (simp add: documentOf_def rootGroups_def writeString_def escapeChar_def decimal.simps digit_char_def)

lemma empty_json_length: "length (bytes_of (writeJson (documentOf []))) = 114"
  unfolding empty_json by (simp add: bytes_of_def)

lemma buildDocument_empty:
  "buildDocument [] =
     Inr \<lparr> doc = documentOf [], rjNodes = [], dataBytes = 10, dataItems = placeholders,
           includeAttributes = True \<rparr>"
  using buildDocument_wf [of "[]"] by (simp add: wfStore_def rootGroups_def placeholders_def)

lemma fwrite_full:
  assumes "bs \<noteq> []"
  shows "\<exists>s1. fwrite bs s = (allComplete 1 (future s), s1) \<and> future s1 = drop 1 (future s) \<and>
           logged s1 = logged s \<and> handle s1 = handle s"
proof (cases "future s")
  case Nil
  then show ?thesis using assms by (simp add: fwrite_def)
next
  case (Cons a r)
  then show ?thesis using assms by (cases a) (simp_all add: fwrite_def)
qed

lemma allComplete_add:
  "allComplete (m + n) fs = (allComplete m fs \<and> allComplete n (drop m fs))"
proof (induction m arbitrary: fs)
  case 0
  then show ?case by simp
next
  case (Suc m)
  have "allComplete (Suc (m + n)) fs = (allComplete 1 fs \<and> allComplete (m + n) (drop 1 fs))"
    by (rule allComplete_Suc)
  also have "\<dots> = (allComplete 1 fs \<and> allComplete m (drop 1 fs) \<and> allComplete n (drop m (drop 1 fs)))"
    by (simp add: Suc.IH)
  also have "\<dots> = (allComplete (Suc m) fs \<and> allComplete n (drop (Suc m) fs))"
    using allComplete_Suc [of m fs] by (simp add: add.commute)
  finally show ?case by simp
qed

lemma writeDataItems_fails_at:
  assumes "\<forall>item \<in> set items. take (unat (item_size item)) (ptr item) \<noteq> []"
    and "k < length items"
    and "allComplete k (future s)" and "\<not> allComplete (Suc k) (future s)"
  shows "\<exists>s'. writeDataItems path off items s =
             (False, off + sum_list (map item_size (take k items)), s') \<and>
           logged s' = logged s @
             [(2, ''%s: Error writing BIN chunk data at offset %u'',
               [ArgStr path, ArgUInt (off + sum_list (map item_size (take k items)))])] \<and>
           handle s' = Closed"
  using assms
proof (induction items arbitrary: k off s)
  case Nil
  then show ?case by simp
next
  case (Cons item rest)
  from fwrite_full [of "take (unat (item_size item)) (ptr item)" s] Cons.prems(1) obtain s1 where
    w: "fwrite (take (unat (item_size item)) (ptr item)) s = (allComplete 1 (future s), s1)"
      "future s1 = drop 1 (future s)" "logged s1 = logged s" "handle s1 = handle s"
    by auto
  show ?case
  proof (cases k)
    case 0
    then have "\<not> allComplete 1 (future s)"
      using Cons.prems(4) by simp
    then show ?thesis
      using w 0 by (simp add: logger_def fclose_def)
  next
    case (Suc j)
    have a: "allComplete 1 (future s)" "allComplete j (future s1)"
      using Cons.prems(3) allComplete_Suc [of j "future s"] by (simp_all add: Suc w(2))
    have b: "\<not> allComplete (Suc j) (future s1)"
      using Cons.prems(4) allComplete_Suc [of "Suc j" "future s"] a(1) by (simp add: Suc w(2))
    have "\<forall>item \<in> set rest. take (unat (item_size item)) (ptr item) \<noteq> []" "j < length rest"
      using Cons.prems(1,2) by (simp_all add: Suc)
    from Cons.IH [OF this a(2) b, of "off + item_size item"] obtain s' where
      r: "writeDataItems path (off + item_size item) rest s1 =
          (False, off + item_size item + sum_list (map item_size (take j rest)), s')"
        "logged s' = logged s1 @
          [(2, ''%s: Error writing BIN chunk data at offset %u'',
            [ArgStr path, ArgUInt (off + item_size item + sum_list (map item_size (take j rest)))])]"
        "handle s' = Closed"
      by (elim exE conjE)
    show ?thesis
      using w a(1) r by (simp add: Suc add.assoc)
  qed
qed

lemma writeContainer_fails_at:
  assumes "doc ctx = JObject ms"
    and "\<forall>item \<in> set (dataItems ctx). take (unat (item_size item)) (ptr item) \<noteq> []"
    and "i < 4 + length (dataItems ctx)"
    and "allComplete i (future s)" and "\<not> allComplete (Suc i) (future s)"
  shows "\<exists>s'. writeContainer ctx path s = Inr (False, s') \<and> handle s' = Closed \<and>
           logged s' = logged s @
             [if i = 0 then (2, ''%s: Error writing header'', [ArgStr path])
              else if i = 1 then (2, ''%s: Error writing JSON chunk header'', [ArgStr path])
              else if i = 2 then (2, ''%s: Error writing JSON data'', [ArgStr path])
              else if i = 3 then (2, ''%s: Error writing BIN chunk header'', [ArgStr path])
              else (2, ''%s: Error writing BIN chunk data at offset %u'',
                    [ArgStr path, ArgUInt (sum_list (map item_size (take (i - 4) (dataItems ctx))))])]"
proof -
  let ?h = "le32 0x46546C67 @ le32 2 @ le32 28"
  let ?buf = "bytes_of (writeJson (doc ctx))"
  let ?jh = "le32 (of_nat (length ?buf)) @ le32 0x4E4F534A"
  let ?bh = "le32 (dataBytes ctx) @ le32 0x004E4942"
  have ne: "?h \<noteq> []" "?jh \<noteq> []" "?buf \<noteq> []" "?bh \<noteq> []"
    using assms(1) by (simp_all add: le32_nonempty bytes_of_def)
  from fwrite_full [OF ne(1), of s] obtain s1 where
    w1: "fwrite ?h s = (allComplete 1 (future s), s1)" "future s1 = drop 1 (future s)"
      "logged s1 = logged s" "handle s1 = handle s"
    by (elim exE conjE)
  from fwrite_full [OF ne(2), of s1] obtain s2 where
    w2: "fwrite ?jh s1 = (allComplete 1 (future s1), s2)" "future s2 = drop 1 (future s1)"
      "logged s2 = logged s1" "handle s2 = handle s1"
    by (elim exE conjE)
  from fwrite_full [OF ne(3), of s2] obtain s3 where
    w3: "fwrite ?buf s2 = (allComplete 1 (future s2), s3)" "future s3 = drop 1 (future s2)"
      "logged s3 = logged s2" "handle s3 = handle s2"
    by (elim exE conjE)
  from fwrite_full [OF ne(4), of s3] obtain s4 where
    w4: "fwrite ?bh s3 = (allComplete 1 (future s3), s4)" "future s4 = drop 1 (future s3)"
      "logged s4 = logged s3" "handle s4 = handle s3"
    by (elim exE conjE)
  have four_def: "(4::nat) = Suc (Suc (Suc (Suc 0)))"
    by simp
  have f1: "future s1 = drop 1 (future s)" and f2: "future s2 = drop 2 (future s)"
    and f3: "future s3 = drop 3 (future s)" and f4: "future s4 = drop 4 (future s)"
    by (simp_all add: w1(2) w2(2) w3(2) w4(2) four_def numeral_2_eq_2 numeral_3_eq_3)
  have st: "allComplete (Suc j) (future s) = (allComplete j (future s) \<and> allComplete 1 (drop j (future s)))" for j
    using allComplete_add [of j 1 "future s"] by simp
  consider "i = 0" | "i = 1" | "i = 2" | "i = 3" | "4 \<le> i"
    by linarith
  then show ?thesis
  proof cases
    case 1
    then have "\<not> allComplete 1 (future s)"
      using assms(5) by simp
    then show ?thesis
      unfolding writeContainer_def Let_def
      by (simp add: w1 1 logger_def fclose_def)
  next
    case 2
    have "allComplete 1 (future s)" "\<not> allComplete 1 (future s1)"
      using assms(4,5) st [of 1] by (simp_all add: 2 f1)
    then show ?thesis
      unfolding writeContainer_def Let_def
      by (simp add: w1 w2 2 logger_def fclose_def)
  next
    case 3
    have "allComplete 1 (future s)" "allComplete 1 (future s1)" "\<not> allComplete 1 (future s2)"
      using assms(4,5) st [of 1] st [of 2] by (simp_all add: 3 f1 f2 eval_nat_numeral)
    then show ?thesis
      unfolding writeContainer_def Let_def
      by (simp add: w1 w2 w3 3 logger_def fclose_def)
  next
    case 4
    have "allComplete 1 (future s)" "allComplete 1 (future s1)" "allComplete 1 (future s2)"
      "\<not> allComplete 1 (future s3)"
      using assms(4,5) st [of 1] st [of 2] st [of 3] by (simp_all add: 4 f1 f2 f3 eval_nat_numeral)
    then show ?thesis
      unfolding writeContainer_def Let_def
      by (simp add: w1 w2 w3 w4 4 logger_def fclose_def)
  next
    case 5
    then obtain k where k: "i = 4 + k"
      using le_Suc_ex by blast
    have four: "allComplete 4 (future s)" and kk: "allComplete k (future s4)"
      using assms(4) allComplete_add [of 4 k "future s"] by (simp_all add: k f4)
    have nk: "\<not> allComplete (Suc k) (future s4)"
      using assms(5) allComplete_add [of 4 "Suc k" "future s"] four by (simp add: k f4)
    have pre: "allComplete 1 (future s)" "allComplete 1 (future s1)" "allComplete 1 (future s2)"
      "allComplete 1 (future s3)"
      using four st [of 1] st [of 2] st [of 3] by (simp_all add: f1 f2 f3 eval_nat_numeral)
    have "k < length (dataItems ctx)"
      using assms(3) k by simp
    from writeDataItems_fails_at [OF assms(2) this kk nk, of path 0] obtain s' where
      r: "writeDataItems path 0 (dataItems ctx) s4 =
          (False, 0 + sum_list (map item_size (take k (dataItems ctx))), s')"
        "logged s' = logged s4 @
          [(2, ''%s: Error writing BIN chunk data at offset %u'',
            [ArgStr path, ArgUInt (0 + sum_list (map item_size (take k (dataItems ctx))))])]"
        "handle s' = Closed"
      by (elim exE conjE)
    show ?thesis
      unfolding writeContainer_def Let_def
      using pre r by (simp add: w1 w2 w3 w4 k)
  qed
qed

lemma exportGLTF_write_failure:
  assumes "wfStore store" and "open_error s = None" and "i < 6"
    and "allComplete i (future s)" and "\<not> allComplete (Suc i) (future s)"
  shows "\<exists>s'. exportGLTF pf store path s = Inr (False, s') \<and>
           logged s' = logged s @ [writeFailureCall path i] \<and> handle s' = Closed"
proof -
  let ?ctx = "\<lparr> doc = documentOf store, rjNodes = postorders True 0 (rootGroups store),
      dataBytes = 10, dataItems = placeholders, includeAttributes = True \<rparr>"
  let ?out = "s \<lparr> disk := [], handle := Opened \<rparr>"
  have b: "buildDocument store = Inr ?ctx"
    using buildDocument_wf [OF assms(1)] by (simp add: placeholders_def)
  have "\<exists>s'. writeContainer ?ctx path ?out = Inr (False, s') \<and> handle s' = Closed \<and>
      logged s' = logged ?out @
        [if i = 0 then (2, ''%s: Error writing header'', [ArgStr path])
         else if i = 1 then (2, ''%s: Error writing JSON chunk header'', [ArgStr path])
         else if i = 2 then (2, ''%s: Error writing JSON data'', [ArgStr path])
         else if i = 3 then (2, ''%s: Error writing BIN chunk header'', [ArgStr path])
         else (2, ''%s: Error writing BIN chunk data at offset %u'',
               [ArgStr path, ArgUInt (sum_list (map item_size (take (i - 4) (dataItems ?ctx))))])]"
    using assms(3,4,5)
    by (intro writeContainer_fails_at [of ?ctx])
      (simp_all add: documentOf_def placeholders_def bytes_of_def)
  then obtain s' where
    w: "writeContainer ?ctx path ?out = Inr (False, s')" "handle s' = Closed"
      "logged s' = logged ?out @
        [if i = 0 then (2, ''%s: Error writing header'', [ArgStr path])
         else if i = 1 then (2, ''%s: Error writing JSON chunk header'', [ArgStr path])
         else if i = 2 then (2, ''%s: Error writing JSON data'', [ArgStr path])
         else if i = 3 then (2, ''%s: Error writing BIN chunk header'', [ArgStr path])
         else (2, ''%s: Error writing BIN chunk data at offset %u'',
               [ArgStr path, ArgUInt (sum_list (map item_size (take (i - 4) (dataItems ?ctx))))])]"
    by (elim exE conjE)
  have off: "sum_list (map item_size (take (i - 4) placeholders)) = 5 * of_nat (i - 4)" if "4 \<le> i"
  proof -
    from that assms(3) consider "i = 4" | "i = 5" by linarith
    then show ?thesis
      by cases (simp_all add: placeholders_def)
  qed
  have "logged s' = logged s @ [writeFailureCall path i]"
  proof (cases "4 \<le> i")
    case True
    then show ?thesis
      using w(3) off [OF True] by (simp add: writeFailureCall_def)
  next
    case False
    then show ?thesis
      using w(3) by (simp add: writeFailureCall_def)
  qed
  moreover have "exportGLTF pf store path s = Inr (False, s')"
    using assms(2) b w(1) by (simp add: exportGLTF_def)
  ultimately show ?thesis
    using w(2) by (rule_tac x = s' in exI) simp
qed

lemma exportGLTF_open_failure:
  assumes "open_error s = Some buf"
  shows "\<exists>s'. exportGLTF pf store path s = Inr (False, s') \<and>
           logged s' = logged s @ [openFailureCall pf path buf] \<and>
           handle s' = handle s \<and> disk s' = disk s"
  using assms by (cases pf) (simp_all add: exportGLTF_def openFailureCall_def logger_def)

text \<open>
  C8: the failure paths. Whenever \<^verbatim>\<open>exportGLTF\<close> returns false it has made exactly one
  logger call, of severity 2, with the destination path among the arguments, and the
  stream is closed if it was opened (after an open failure there is none). When the
  message is the one of the BIN chunk body, its second argument is the offset reached:
  the size of the payloads written completely (0 or 5), which precede the partial
  bytes of the failing item in the file. For a well-formed scene the call returns
  false exactly when the open fails or one of its six writes (header, JSON chunk
  header, JSON text, BIN chunk header, two payloads) fails. Path by path: a failed
  open returns false after the one call \<open>openFailureCall\<close>, with no stream opened and
  the file untouched; when the writes before the \<open>i\<close>-th succeed and the \<open>i\<close>-th fails,
  the call returns false after the one call \<open>writeFailureCall path i\<close>, with the stream
  closed. So a failed payload write is reported with the message of the BIN chunk
  body and the offset 0 (first payload) or 5 (second payload).
\<close>

theorem export_failure_reported:
  "(exportGLTF pf store path s = Inr (False, s') \<longrightarrow>
      (\<exists>fmt args. logged s' = logged s @ [(2, fmt, args)] \<and> ArgStr path \<in> set args \<and>
         handle s' = (if open_error s = None then Closed else handle s) \<and>
         (fmt = ''%s: Error writing BIN chunk data at offset %u'' \<longrightarrow>
            (\<exists>k part ctx. k < 2 \<and> args = [ArgStr path, ArgUInt (5 * of_nat k)] \<and>
               buildDocument store = Inr ctx \<and>
               disk s' = containerHead ctx @ take (5 * k) (bytes_of ''test0test1'') @ part \<and>
               length part < 5)))) \<and>
   (wfStore store \<longrightarrow>
      (\<exists>s'. exportGLTF pf store path s = Inr (open_error s = None \<and> allComplete 6 (future s), s'))) \<and>
   (open_error s = Some buf \<longrightarrow>
      (\<exists>s'. exportGLTF pf store path s = Inr (False, s') \<and>
         logged s' = logged s @ [openFailureCall pf path buf] \<and>
         handle s' = handle s \<and> disk s' = disk s)) \<and>
   (wfStore store \<and> open_error s = None \<and> i < 6 \<and>
    allComplete i (future s) \<and> \<not> allComplete (Suc i) (future s) \<longrightarrow>
      (\<exists>s'. exportGLTF pf store path s = Inr (False, s') \<and>
         logged s' = logged s @ [writeFailureCall path i] \<and> handle s' = Closed))"
proof (intro conjI impI)
  assume "exportGLTF pf store path s = Inr (False, s')"
  then show "\<exists>fmt args. logged s' = logged s @ [(2, fmt, args)] \<and> ArgStr path \<in> set args \<and>
      handle s' = (if open_error s = None then Closed else handle s) \<and>
      (fmt = ''%s: Error writing BIN chunk data at offset %u'' \<longrightarrow>
         (\<exists>k part ctx. k < 2 \<and> args = [ArgStr path, ArgUInt (5 * of_nat k)] \<and>
            buildDocument store = Inr ctx \<and>
            disk s' = containerHead ctx @ take (5 * k) (bytes_of ''test0test1'') @ part \<and>
            length part < 5))"
    by (rule exportGLTF_False)
next
  assume "wfStore store"
  then show "\<exists>s'. exportGLTF pf store path s = Inr (open_error s = None \<and> allComplete 6 (future s), s')"
    by (rule exportGLTF_flag)
next
  assume "open_error s = Some buf"
  then show "\<exists>s'. exportGLTF pf store path s = Inr (False, s') \<and>
      logged s' = logged s @ [openFailureCall pf path buf] \<and>
      handle s' = handle s \<and> disk s' = disk s"
    by (rule exportGLTF_open_failure)
next
  assume a: "wfStore store \<and> open_error s = None \<and> i < 6 \<and>
    allComplete i (future s) \<and> \<not> allComplete (Suc i) (future s)"
  show "\<exists>s'. exportGLTF pf store path s = Inr (False, s') \<and>
      logged s' = logged s @ [writeFailureCall path i] \<and> handle s' = Closed"
    using a by (intro exportGLTF_write_failure) simp_all
qed

lemma export_empty_bin_failure:
  "exportGLTF Posix [] ''out.glb''
     (initial_io None [Complete, Complete, Complete, Complete, Complete, Short 2]) =
   Inr (False,
     \<lparr> open_error = None, future = [],
       disk = le32 0x46546C67 @ le32 2 @ le32 28 @ le32 114 @ le32 0x4E4F534A @
              bytes_of (writeJson (documentOf [])) @ le32 10 @ le32 0x004E4942 @
              bytes_of ''test0te'',
       handle = Closed,
       logged = [(2, ''%s: Error writing BIN chunk data at offset %u'',
                  [ArgStr ''out.glb'', ArgUInt 5])] \<rparr>)"
proof -
  have ne: "bytes_of (writeJson (documentOf [])) \<noteq> []"
    using empty_json_length by auto
  show ?thesis
    unfolding exportGLTF_def initial_io_def
    by (simp add: buildDocument_empty writeContainer_def Let_def fwrite_def le32_nonempty
        empty_json_length ne placeholders_def bytes_of_def [of "''test0''"]
        bytes_of_def [of "''test1''"] bytes_of_def [of "''test0te''"] logger_def fclose_def)
qed

lemma export_empty_open_failure:
  "exportGLTF Win32 [] ''out.glb'' (initial_io (Some ''Permission denied'') []) =
   Inr (False,
     \<lparr> open_error = Some ''Permission denied'', future = [], disk = [], handle = NotOpened,
       logged = [(2, ''Failed to open %s for writing: %s'',
                  [ArgStr ''out.glb'', ArgStr ''Permission denied''])] \<rparr>)"
  by (simp add: exportGLTF_def initial_io_def logger_def)

lemma export_empty_header_failure:
  "exportGLTF Posix [] ''out.glb'' (initial_io None [Short 0]) =
   Inr (False,
     \<lparr> open_error = None, future = [], disk = [], handle = Closed,
       logged = [(2, ''%s: Error writing header'', [ArgStr ''out.glb''])] \<rparr>)"
  unfolding exportGLTF_def initial_io_def
  by (simp add: buildDocument_empty writeContainer_def Let_def fwrite_def le32_nonempty
      logger_def fclose_def)

lemma export_empty_success:
  "exportGLTF Posix [] ''out.glb'' (initial_io None []) =
   Inr (True,
     \<lparr> open_error = None, future = [],
       disk = le32 0x46546C67 @ le32 2 @ le32 28 @ le32 114 @ le32 0x4E4F534A @
              bytes_of (writeJson (documentOf [])) @ le32 10 @ le32 0x004E4942 @
              bytes_of ''test0test1'',
       handle = Closed, logged = [] \<rparr>)"
proof -
  have ne: "bytes_of (writeJson (documentOf [])) \<noteq> []"
    using empty_json_length by auto
  show ?thesis
    unfolding exportGLTF_def initial_io_def
    by (simp add: buildDocument_empty writeContainer_def Let_def fwrite_def le32_nonempty
        empty_json_length ne placeholders_def bytes_of_def [of "''test0''"]
        bytes_of_def [of "''test1''"] bytes_of_def [of "''test0test1''"] logger_def fclose_def)
qed

theorem export_failure_reported_witness:
  "(\<exists>s'. exportGLTF Posix [] ''out.glb''
            (initial_io None [Complete, Complete, Complete, Complete, Complete, Short 2]) = Inr (False, s') \<and>
      logged s' = [(2, ''%s: Error writing BIN chunk data at offset %u'', [ArgStr ''out.glb'', ArgUInt 5])] \<and>
      handle s' = Closed) \<and>
   (\<exists>s'. exportGLTF Posix [] ''out.glb'' (initial_io None [Short 0]) = Inr (False, s') \<and>
      logged s' = [(2, ''%s: Error writing header'', [ArgStr ''out.glb''])] \<and>
      handle s' = Closed) \<and>
   (\<exists>s'. exportGLTF Win32 [] ''out.glb'' (initial_io (Some ''Permission denied'') []) = Inr (False, s') \<and>
      logged s' = [(2, ''Failed to open %s for writing: %s'',
                    [ArgStr ''out.glb'', ArgStr ''Permission denied''])] \<and>
      handle s' = NotOpened) \<and>
   wfStore [] \<and>
   (\<exists>s'. exportGLTF Posix [] ''out.glb'' (initial_io None []) = Inr (True, s')) \<and>
   (\<exists>s'. exportGLTF Posix [] ''out.glb''
            (initial_io None [Complete, Complete, Complete, Complete, Short 0]) = Inr (False, s') \<and>
      logged s' = [(2, ''%s: Error writing BIN chunk data at offset %u'', [ArgStr ''out.glb'', ArgUInt 0])] \<and>
      handle s' = Closed) \<and>
   (\<exists>s'. exportGLTF Posix [] ''out.glb'' (initial_io (Some ''Permission denied'') []) = Inr (False, s') \<and>
      logged s' = [(2, ''Failed to open %s for writing.'', [ArgStr ''out.glb''])] \<and>
      handle s' = NotOpened \<and> disk s' = []) \<and>
   (\<exists>s'. exportGLTF Posix [] ''out.glb''
            (initial_io None [Complete, Complete, Short 7]) = Inr (False, s') \<and>
      logged s' = [(2, ''%s: Error writing JSON data'', [ArgStr ''out.glb''])] \<and>
      handle s' = Closed)"
proof -
  let ?s1 = "initial_io None [Complete, Complete, Complete, Complete, Complete, Short 2]"
  let ?s0 = "initial_io None [Complete, Complete, Complete, Complete, Short 0]"
  let ?sj = "initial_io None [Complete, Complete, Short 7]"
  let ?so = "initial_io (Some ''Permission denied'') []"
  have wf: "wfStore []"
    by (simp add: wfStore_def)
  obtain s1 where e1: "exportGLTF Posix [] ''out.glb'' ?s1 = Inr (False, s1)"
    using export_failure_reported [of Posix "[]" "''out.glb''" ?s1 ?s1] wf
    by (auto simp add: initial_io_def eval_nat_numeral)
  from export_failure_reported [of Posix "[]" "''out.glb''" ?s1 s1] e1 obtain fmt args where
    l1: "logged s1 = logged ?s1 @ [(2, fmt, args)]" "ArgStr ''out.glb'' \<in> set args"
      "handle s1 = (if open_error ?s1 = None then Closed else handle ?s1)"
    by blast
  have "logged s1 = [(2, ''%s: Error writing BIN chunk data at offset %u'', [ArgStr ''out.glb'', ArgUInt 5])]"
    using e1 by (auto simp add: export_empty_bin_failure)
  moreover have "handle s1 = Closed"
    using l1(3) by (simp add: initial_io_def)
  ultimately have p1: "\<exists>s'. exportGLTF Posix [] ''out.glb'' ?s1 = Inr (False, s') \<and>
      logged s' = [(2, ''%s: Error writing BIN chunk data at offset %u'', [ArgStr ''out.glb'', ArgUInt 5])] \<and>
      handle s' = Closed"
    using e1 by blast
  have p2: "\<exists>s'. exportGLTF Posix [] ''out.glb'' (initial_io None [Short 0]) = Inr (False, s') \<and>
      logged s' = [(2, ''%s: Error writing header'', [ArgStr ''out.glb''])] \<and> handle s' = Closed"
    by (simp add: export_empty_header_failure)
  have p3: "\<exists>s'. exportGLTF Win32 [] ''out.glb'' (initial_io (Some ''Permission denied'') []) = Inr (False, s') \<and>
      logged s' = [(2, ''Failed to open %s for writing: %s'',
                    [ArgStr ''out.glb'', ArgStr ''Permission denied''])] \<and>
      handle s' = NotOpened"
    by (simp add: export_empty_open_failure)
  have p4: "\<exists>s'. exportGLTF Posix [] ''out.glb'' (initial_io None []) = Inr (True, s')"
    using export_failure_reported [of Posix "[]" "''out.glb''" "initial_io None []" "initial_io None []"] wf
    by (auto simp add: initial_io_def eval_nat_numeral)
  have h0: "wfStore [] \<and> open_error ?s0 = None \<and> (4 :: nat) < 6 \<and>
      allComplete 4 (future ?s0) \<and> \<not> allComplete (Suc 4) (future ?s0)"
    using wf by (simp add: initial_io_def eval_nat_numeral)
  have p5: "\<exists>s'. exportGLTF Posix [] ''out.glb'' ?s0 = Inr (False, s') \<and>
      logged s' = [(2, ''%s: Error writing BIN chunk data at offset %u'', [ArgStr ''out.glb'', ArgUInt 0])] \<and>
      handle s' = Closed"
    using export_failure_reported [where pf = Posix and store = "[]" and path = "''out.glb''"
        and s = ?s0 and i = 4, THEN conjunct2, THEN conjunct2, THEN conjunct2, rule_format, OF h0]
    by (simp add: writeFailureCall_def initial_io_def)
  have p6: "\<exists>s'. exportGLTF Posix [] ''out.glb'' ?so = Inr (False, s') \<and>
      logged s' = [(2, ''Failed to open %s for writing.'', [ArgStr ''out.glb''])] \<and>
      handle s' = NotOpened \<and> disk s' = []"
    using export_failure_reported [where pf = Posix and store = "[]" and path = "''out.glb''"
        and s = ?so and buf = "''Permission denied''", THEN conjunct2, THEN conjunct2, THEN conjunct1]
    by (simp add: openFailureCall_def initial_io_def)
  have hj: "wfStore [] \<and> open_error ?sj = None \<and> (2 :: nat) < 6 \<and>
      allComplete 2 (future ?sj) \<and> \<not> allComplete (Suc 2) (future ?sj)"
    using wf by (simp add: initial_io_def eval_nat_numeral)
  have p7: "\<exists>s'. exportGLTF Posix [] ''out.glb'' ?sj = Inr (False, s') \<and>
      logged s' = [(2, ''%s: Error writing JSON data'', [ArgStr ''out.glb''])] \<and>
      handle s' = Closed"
    using export_failure_reported [where pf = Posix and store = "[]" and path = "''out.glb''"
        and s = ?sj and i = 2, THEN conjunct2, THEN conjunct2, THEN conjunct2, rule_format, OF hj]
    by (simp add: writeFailureCall_def initial_io_def)
  show ?thesis
    using p1 p2 p3 wf p4 p5 p6 p7 by (intro conjI)
qed

lemma exportGLTF_True_disk:
  assumes "exportGLTF pf store path s = Inr (True, s')"
  shows "\<exists>ctx js. buildDocument store = Inr ctx \<and> js = bytes_of (writeJson (doc ctx)) \<and>
           disk s' = le32 0x46546C67 @ le32 2 @ le32 28 @
                     le32 (of_nat (length js)) @ le32 0x4E4F534A @ js @
                     le32 10 @ le32 0x004E4942 @ bytes_of ''test0test1''"
proof -
  from exportGLTF_True [OF assms] obtain ctx where
    c: "buildDocument store = Inr ctx" "disk s' = containerHead ctx @ payload (dataItems ctx)"
    by blast
  from buildDocument_Inr [OF c(1)] have "dataBytes ctx = 10" "dataItems ctx = placeholders"
    by simp_all
  then have "disk s' = le32 0x46546C67 @ le32 2 @ le32 28 @
      le32 (of_nat (length (bytes_of (writeJson (doc ctx))))) @ le32 0x4E4F534A @
      bytes_of (writeJson (doc ctx)) @ le32 10 @ le32 0x004E4942 @ bytes_of ''test0test1''"
    using c(2) by (simp add: containerHead_def payload_placeholders)
  then show ?thesis
    using c(1) by blast
qed

text \<open>
  C2, as amended: in every file a successful export leaves, the length field of the
  JSON chunk is the byte count of the serialised text (as a 32-bit value) and the
  text follows it with no fill byte; the BIN chunk header follows the text directly,
  its length field is the 10 bytes registered, and the file ends after those 10 bytes.
\<close>

theorem chunk_lengths_unpadded:
  assumes "exportGLTF pf store path s = Inr (True, s')"
  shows "\<exists>ctx js. buildDocument store = Inr ctx \<and> js = bytes_of (writeJson (doc ctx)) \<and>
           disk s' = le32 0x46546C67 @ le32 2 @ le32 28 @
                     le32 (of_nat (length js)) @ le32 0x4E4F534A @ js @
                     le32 10 @ le32 0x004E4942 @ bytes_of ''test0test1'' \<and>
           length (bytes_of ''test0test1'') = 10"
  using exportGLTF_True_disk [OF assms] by (simp add: bytes_of_def)

theorem chunk_lengths_unpadded_witness:
  "(\<exists>s'. exportGLTF Posix [] ''out.glb'' (initial_io None []) = Inr (True, s') \<and>
      disk s' = le32 0x46546C67 @ le32 2 @ le32 28 @
                le32 114 @ le32 0x4E4F534A @ bytes_of (writeJson (documentOf [])) @
                le32 10 @ le32 0x004E4942 @ bytes_of ''test0test1'') \<and>
   length (bytes_of (writeJson (documentOf []))) = 114"
proof -
  let ?s = "initial_io None []"
  obtain s' where e: "exportGLTF Posix [] ''out.glb'' ?s = Inr (True, s')"
    by (simp add: export_empty_success)
  from chunk_lengths_unpadded [OF e] obtain ctx js where
    c: "buildDocument [] = Inr ctx" "js = bytes_of (writeJson (doc ctx))"
      "disk s' = le32 0x46546C67 @ le32 2 @ le32 28 @
         le32 (of_nat (length js)) @ le32 0x4E4F534A @ js @
         le32 10 @ le32 0x004E4942 @ bytes_of ''test0test1''"
    by blast
  have "doc ctx = documentOf []"
    using c(1) by (auto simp add: buildDocument_empty)
  then have "js = bytes_of (writeJson (documentOf []))"
    using c(2) by simp
  then show ?thesis
    using e c(3) by (auto simp add: empty_json_length)
qed

text \<open>
  C2 as stated fails on the empty scene: the JSON chunk is declared and written with
  114 bytes and the BIN chunk with 10 bytes; neither is a multiple of 4 and no space
  or zero byte is added.
\<close>

theorem chunk_padding_counterexample:
  "outputOf (exportGLTF Posix [] ''out.glb'' (initial_io None [])) =
     Some (le32 0x46546C67 @ le32 2 @ le32 28 @
           le32 114 @ le32 0x4E4F534A @ bytes_of (writeJson (documentOf [])) @
           le32 10 @ le32 0x004E4942 @ bytes_of ''test0test1'') \<and>
   length (bytes_of (writeJson (documentOf []))) = 114 \<and> \<not> 4 dvd (114 :: nat) \<and>
   length (bytes_of ''test0test1'') = 10 \<and> \<not> 4 dvd (10 :: nat)"
  by (simp add: export_empty_success outputOf_def empty_json_length bytes_of_def [of "''test0test1''"])

lemma length_le32: "length (le32 w) = 4"
  by (simp add: le32_def)

text \<open>
  C1 on the empty scene: the header is the magic, the version 2 and the value 28 in the
  total length field, while the file has 152 = 12 + 8 + 114 + 8 + 10 bytes.
\<close>

theorem header_total_length_constant:
  "map_option (take 12) (outputOf (exportGLTF Posix [] ''out.glb'' (initial_io None []))) =
     Some (le32 0x46546C67 @ le32 2 @ le32 28) \<and>
   map_option length (outputOf (exportGLTF Posix [] ''out.glb'' (initial_io None []))) = Some 152 \<and>
   length (bytes_of (writeJson (documentOf []))) = 114 \<and>
   (12 + 8 + 114 + 8 + 10 :: nat) = 152"
proof -
  let ?rest = "le32 114 @ le32 0x4E4F534A @ bytes_of (writeJson (documentOf [])) @
      le32 10 @ le32 0x004E4942 @ bytes_of ''test0test1''"
  have out: "outputOf (exportGLTF Posix [] ''out.glb'' (initial_io None [])) =
      Some ((le32 0x46546C67 @ le32 2 @ le32 28) @ ?rest)"
    by (simp add: export_empty_success outputOf_def)
  have t: "take 12 ((le32 0x46546C67 @ le32 2 @ le32 28) @ ?rest) = le32 0x46546C67 @ le32 2 @ le32 28"
    by (subst take_append) (simp add: length_le32)
  have l: "length ((le32 0x46546C67 @ le32 2 @ le32 28) @ ?rest) = 152"
    by (simp add: length_le32 empty_json_length bytes_of_def [of "''test0test1''"])
  show ?thesis
    unfolding out using t l empty_json_length by simp
qed

text \<open>
  C10: the placeholders. For every well-formed scene the context handed to the writer
  has \<^verbatim>\<open>dataBytes = 10\<close> and exactly two descriptors: the literal \<^verbatim>\<open>test0\<close> by reference
  (the buffer with its terminating zero, size 5) and a 5-byte copy of \<^verbatim>\<open>test1\<close>; the
  export succeeds when the file opens and the six writes succeed; and every file of a
  successful export ends with the BIN chunk header for 10 bytes and the bytes
  \<^verbatim>\<open>test0test1\<close>, whatever the scene.
\<close>

theorem placeholder_payloads:
  "(wfStore store \<longrightarrow>
      (\<exists>ctx. buildDocument store = Inr ctx \<and> dataBytes ctx = 10 \<and>
         dataItems ctx = [\<lparr> ptr = bytes_of ''test0'' @ [0], item_size = 5 \<rparr>,
                          \<lparr> ptr = bytes_of ''test1'', item_size = 5 \<rparr>] \<and>
         payload (dataItems ctx) = bytes_of ''test0test1'')) \<and>
   (wfStore store \<and> open_error s = None \<and> allComplete 6 (future s) \<longrightarrow>
      (\<exists>s'. exportGLTF pf store path s = Inr (True, s'))) \<and>
   (exportGLTF pf store path s = Inr (True, s') \<longrightarrow>
      (\<exists>front. disk s' = front @ le32 10 @ le32 0x004E4942 @ bytes_of ''test0test1''))"
proof (intro conjI impI)
  assume wf: "wfStore store"
  then obtain ctx where b: "buildDocument store = Inr ctx"
    by (simp add: buildDocument_wf)
  from buildDocument_Inr [OF b] have i: "dataBytes ctx = 10" "dataItems ctx = placeholders"
    by simp_all
  have "buildDocument store = Inr ctx \<and> dataBytes ctx = 10 \<and>
      dataItems ctx = [\<lparr> ptr = bytes_of ''test0'' @ [0], item_size = 5 \<rparr>,
                       \<lparr> ptr = bytes_of ''test1'', item_size = 5 \<rparr>] \<and>
      payload (dataItems ctx) = bytes_of ''test0test1''"
    unfolding i payload_placeholders using b by (simp add: placeholders_def)
  then show "\<exists>ctx. buildDocument store = Inr ctx \<and> dataBytes ctx = 10 \<and>
      dataItems ctx = [\<lparr> ptr = bytes_of ''test0'' @ [0], item_size = 5 \<rparr>,
                       \<lparr> ptr = bytes_of ''test1'', item_size = 5 \<rparr>] \<and>
      payload (dataItems ctx) = bytes_of ''test0test1''"
    by (rule_tac x = ctx in exI)
next
  assume "wfStore store \<and> open_error s = None \<and> allComplete 6 (future s)"
  then show "\<exists>s'. exportGLTF pf store path s = Inr (True, s')"
    using exportGLTF_flag [of store pf path s] by simp
next
  assume "exportGLTF pf store path s = Inr (True, s')"
  from exportGLTF_True_disk [OF this] obtain ctx js where
    d: "buildDocument store = Inr ctx \<and> js = bytes_of (writeJson (doc ctx)) \<and>
      disk s' = le32 0x46546C67 @ le32 2 @ le32 28 @ le32 (of_nat (length js)) @ le32 0x4E4F534A @ js @
        le32 10 @ le32 0x004E4942 @ bytes_of ''test0test1''"
    by (elim exE)
  then have "disk s' = (le32 0x46546C67 @ le32 2 @ le32 28 @ le32 (of_nat (length js)) @ le32 0x4E4F534A @ js) @
      le32 10 @ le32 0x004E4942 @ bytes_of ''test0test1''"
    by (simp only: append_assoc)
  then show "\<exists>front. disk s' = front @ le32 10 @ le32 0x004E4942 @ bytes_of ''test0test1''"
    by (rule_tac x = "le32 0x46546C67 @ le32 2 @ le32 28 @ le32 (of_nat (length js)) @ le32 0x4E4F534A @ js" in exI)
qed

theorem placeholder_payloads_witness:
  "wfStore sampleStore \<and> open_error (initial_io None []) = None \<and>
   allComplete 6 (future (initial_io None [])) \<and>
   (\<exists>ctx. buildDocument sampleStore = Inr ctx \<and> dataBytes ctx = 10 \<and>
      payload (dataItems ctx) = bytes_of ''test0test1'') \<and>
   (\<exists>s' front. exportGLTF Posix sampleStore ''out.glb'' (initial_io None []) = Inr (True, s') \<and>
      disk s' = front @ le32 10 @ le32 0x004E4942 @ bytes_of ''test0test1'')"
proof -
  let ?s = "initial_io None []"
  have h: "wfStore sampleStore \<and> open_error ?s = None \<and> allComplete 6 (future ?s)"
    by (simp add: sampleStore_wf initial_io_def eval_nat_numeral)
  have wf: "wfStore sampleStore"
    using h by (rule conjunct1)
  note t = placeholder_payloads [of sampleStore ?s Posix "''out.glb''"]
  from t [of ?s, THEN conjunct2, THEN conjunct1, rule_format, OF h] obtain s' where
    e: "exportGLTF Posix sampleStore ''out.glb'' ?s = Inr (True, s')"
    by (rule exE)
  from t [of s', THEN conjunct1, rule_format, OF wf] obtain ctx where
    c: "buildDocument sampleStore = Inr ctx \<and> dataBytes ctx = 10 \<and>
      dataItems ctx = [\<lparr> ptr = bytes_of ''test0'' @ [0], item_size = 5 \<rparr>,
                       \<lparr> ptr = bytes_of ''test1'', item_size = 5 \<rparr>] \<and>
      payload (dataItems ctx) = bytes_of ''test0test1''"
    by (rule exE)
  from t [of s', THEN conjunct2, THEN conjunct2, rule_format, OF e] obtain front where
    f: "disk s' = front @ le32 10 @ le32 0x004E4942 @ bytes_of ''test0test1''"
    by (rule exE)
  have c': "\<exists>ctx. buildDocument sampleStore = Inr ctx \<and> dataBytes ctx = 10 \<and>
      payload (dataItems ctx) = bytes_of ''test0test1''"
    using c by (intro exI [of _ ctx] conjI) (elim conjE, assumption)+
  have e': "\<exists>s' front. exportGLTF Posix sampleStore ''out.glb'' ?s = Inr (True, s') \<and>
      disk s' = front @ le32 10 @ le32 0x004E4942 @ bytes_of ''test0test1''"
    using e f by (intro exI [of _ s'] exI [of _ front]) simp
  show ?thesis
    using h c' e' by (intro conjI) simp_all
qed

subsection \<open>Registration order and the BIN chunk\<close>


















subsection \<open>The scenarios of the spec\<close>

lemma sample_json:
  \<open>writeJson (documentOf sampleStore) =
     ''{"asset":{},"scene":0,"scenes":[{"nodes":[0,2]}],"nodes":[{"name":"A","extras":{"unit":"mm"}},{"name":"C"},{"name":"B","children":[1]}],"meshes":[],"accessors":[],"bufferViews":[],"buffers":[]}''\<close>
  unfolding sampleStore_document
  by (simp add: writeString_def escapeChar_def decimal.simps digit_char_def)

text \<open>
  The end-to-end scenario of the spec: one File, one Model, the Groups A (attribute
  \<open>unit = mm\<close>) and B with the child C. The nodes are A, C, B in creation order, B refers
  to node 1 and the scene lists the roots 0 and 2.
\<close>

theorem end_to_end_scenario:
  \<open>\<exists>ctx. buildDocument sampleStore = Inr ctx \<and>
     rjNodes ctx =
       [JObject [(''name'', JString ''A''), (''extras'', JObject [(''unit'', JString ''mm'')])],
        JObject [(''name'', JString ''C'')],
        JObject [(''name'', JString ''B''), (''children'', JArray [JUint 1])]] \<and>
     FindMember ''scenes'' (doc ctx) = Some (JArray [JObject [(''nodes'', JArray [JUint 0, JUint 2])]]) \<and>
     writeJson (doc ctx) =
       ''{"asset":{},"scene":0,"scenes":[{"nodes":[0,2]}],"nodes":[{"name":"A","extras":{"unit":"mm"}},{"name":"C"},{"name":"B","children":[1]}],"meshes":[],"accessors":[],"bufferViews":[],"buffers":[]}''\<close>
proof -
  have s: "FindMember ''scenes'' (documentOf sampleStore) =
      Some (JArray [JObject [(''nodes'', JArray [JUint 0, JUint 2])]])"
    unfolding sampleStore_document by simp
  show ?thesis
    unfolding buildDocument_wf [OF sampleStore_wf]
    by (simp add: sampleStore_nodes sample_json s)
qed

text \<open>
  The empty input: no File gives an empty node array, an empty root list and still a
  complete container of 152 bytes.
\<close>

theorem empty_scenario:
  \<open>\<exists>s' ctx. exportGLTF Posix [] ''out.glb'' (initial_io None []) = Inr (True, s') \<and>
     buildDocument [] = Inr ctx \<and> rjNodes ctx = [] \<and>
     FindMember ''scenes'' (doc ctx) = Some (JArray [JObject [(''nodes'', JArray [])]]) \<and>
     writeJson (doc ctx) =
       ''{"asset":{},"scene":0,"scenes":[{"nodes":[]}],"nodes":[],"meshes":[],"accessors":[],"bufferViews":[],"buffers":[]}'' \<and>
     length (disk s') = 152 \<and> handle s' = Closed \<and> logged s' = []\<close>
proof -
  have s: "FindMember ''scenes'' (documentOf []) = Some (JArray [JObject [(''nodes'', JArray [])]])"
    by (simp add: documentOf_def rootGroups_def)
  show ?thesis
    unfolding export_empty_success buildDocument_empty
    by (simp add: s empty_json length_le32 empty_json_length [unfolded empty_json]
        bytes_of_def [of "''test0test1''"])
qed

text \<open>
  The count invariant: for a well-formed forest the node array has exactly one object
  per node of kind Group.
\<close>

theorem node_count:
  assumes "wfStore store"
  shows "\<exists>ctx. buildDocument store = Inr ctx \<and> length (rjNodes ctx) = sum_list (map groupCount store)"
  unfolding buildDocument_wf [OF assms]
  by (simp add: length_postorder groupCount_wfStore [OF assms])

theorem node_count_witness:
  "wfStore sampleStore \<and> (\<exists>ctx. buildDocument sampleStore = Inr ctx \<and> length (rjNodes ctx) = 3)"
proof -
  have "sum_list (map groupCount sampleStore) = 3"
    by (simp add: sampleStore_def)
  with node_count [OF sampleStore_wf] sampleStore_wf show ?thesis
    by simp
qed

end
